theory Spec2Isabelle
  imports Main "HOL-Library.Sublist" "HOL-Library.AList"
begin

section \<open>Structured-content extraction of the contract analysis server\<close>

text \<open>
  The development embeds \<^verbatim>\<open>flattenPolygon\<close> and \<^verbatim>\<open>extractStructuredContent\<close>
  (with its local \<^verbatim>\<open>linePolygonMap\<close> and \<^verbatim>\<open>findLinePolygon\<close>) of
  \<^verbatim>\<open>src/server.js\<close>.

  The analysis result is modelled with the fields the source reads.  A field the
  source tests for absence (\<^verbatim>\<open>result.pages\<close>, \<^verbatim>\<open>page.lines\<close>,
  \<^verbatim>\<open>result.paragraphs\<close>, \<^verbatim>\<open>paragraph.role\<close>,
  \<^verbatim>\<open>paragraph.boundingRegions\<close>) is an \<open>option\<close>.  A polygon is an arbitrary
  JavaScript value, because \<^verbatim>\<open>flattenPolygon\<close> inspects its shape at run time.
  Strings are lists of code units in the 8-bit range (U+0000 to U+00FF), on
  which \<^verbatim>\<open>trim\<close>, \<^verbatim>\<open>\s\<close> and the flag \<^verbatim>\<open>i\<close> are what the definitions
  below say; page numbers and indices are natural numbers, rendered in decimal
  by template literals.  The type \<open>'n\<close> stands for JavaScript numbers, whose
  rendering in a template literal is the parameter \<open>ns\<close> of the functions
  that build strings from coordinates.

  The only exception the functions can raise on such a result is the TypeError
  of reading a property of \<^verbatim>\<open>null\<close> or \<^verbatim>\<open>undefined\<close> inside
  \<^verbatim>\<open>flattenPolygon\<close>; a function that can raise returns \<open>error + 'a\<close>.

  The types leave out the results in which a line or a paragraph has no
  \<^verbatim>\<open>content\<close>, or in which an element of \<^verbatim>\<open>pages\<close>, \<^verbatim>\<open>lines\<close>,
  \<^verbatim>\<open>paragraphs\<close> or \<^verbatim>\<open>boundingRegions\<close> is \<^verbatim>\<open>null\<close>.  On those the source
  raises as well (\<^verbatim>\<open>line.content.trim()\<close> at line 174, \<^verbatim>\<open>region.polygon\<close> at
  line 244), and no statement below is about them.
\<close>

subsection \<open>JavaScript values and errors\<close>

datatype error = TypeError

datatype 'n jsval =
    JUndefined
  | JNull
  | JBool bool
  | JNumber 'n
  | JString string
  | JArray "'n jsval list"
  | JObject "(string \<times> 'n jsval) list"

text \<open>\<^verbatim>\<open>typeof v === 'number'\<close>\<close>

fun typeof_number :: "'n jsval \<Rightarrow> bool" where
  "typeof_number (JNumber _) = True"
| "typeof_number _ = False"

text \<open>
  Truthiness of a value that is not a number (the only use in the source,
  \<^verbatim>\<open>polygon[0] && ...\<close>, comes after the test for a number).
\<close>

fun truthy :: "'n jsval \<Rightarrow> bool" where
  "truthy JUndefined = False"
| "truthy JNull = False"
| "truthy (JBool b) = b"
| "truthy (JString s) = (s \<noteq> [])"
| "truthy _ = True"

text \<open>
  Reading a property \<^verbatim>\<open>v.name\<close>: a TypeError on \<^verbatim>\<open>null\<close> and
  \<^verbatim>\<open>undefined\<close>, the stored value on an object that has the property, and
  \<^verbatim>\<open>undefined\<close> otherwise.
\<close>

fun get_prop :: "'n jsval \<Rightarrow> string \<Rightarrow> error + 'n jsval" where
  "get_prop JUndefined name = Inl TypeError"
| "get_prop JNull name = Inl TypeError"
| "get_prop (JObject kvs) name = Inr (case map_of kvs name of None \<Rightarrow> JUndefined | Some v \<Rightarrow> v)"
| "get_prop v name = Inr JUndefined"

text \<open>\<^verbatim>\<open>xs.join(sep)\<close> on an array of strings.\<close>

fun join :: "string \<Rightarrow> string list \<Rightarrow> string" where
  "join sep [] = []"
| "join sep [x] = x"
| "join sep (x # y # ys) = x @ sep @ join sep (y # ys)"

text \<open>Decimal rendering of a natural number, as a template literal prints it.\<close>

definition digit_char :: "nat \<Rightarrow> char" where
  "digit_char d = char_of (48 + d)"

function show_nat :: "nat \<Rightarrow> string" where
  "show_nat n = (if n < 10 then [digit_char n] else show_nat (n div 10) @ [digit_char (n mod 10)])"
  by pat_completeness auto
termination
  by (relation "measure id") auto

declare show_nat.simps [simp del]

text \<open>
  The string a template literal produces for a value (\<^verbatim>\<open>`${v}`\<close>); an array
  prints its elements joined by commas, with \<^verbatim>\<open>null\<close> and \<^verbatim>\<open>undefined\<close>
  elements printed as the empty string.
\<close>

fun to_string :: "('n \<Rightarrow> string) \<Rightarrow> 'n jsval \<Rightarrow> string" where
  "to_string ns JUndefined = ''undefined''"
| "to_string ns JNull = ''null''"
| "to_string ns (JBool b) = (if b then ''true'' else ''false'')"
| "to_string ns (JNumber n) = ns n"
| "to_string ns (JString s) = s"
| "to_string ns (JArray xs) =
     join '','' (map (\<lambda>x. if x = JUndefined \<or> x = JNull then [] else to_string ns x) xs)"
| "to_string ns (JObject kvs) = ''[object Object]''"

subsection \<open>flattenPolygon\<close>

text \<open>\<^verbatim>\<open>polygon.flatMap(pt => [pt.x, pt.y])\<close>\<close>

fun flatMap_xy :: "'n jsval list \<Rightarrow> error + 'n jsval list" where
  "flatMap_xy [] = Inr []"
| "flatMap_xy (pt # pts) =
     (case get_prop pt ''x'' of
        Inl e \<Rightarrow> Inl e
      | Inr x \<Rightarrow>
          (case get_prop pt ''y'' of
             Inl e \<Rightarrow> Inl e
           | Inr y \<Rightarrow>
               (case flatMap_xy pts of
                  Inl e \<Rightarrow> Inl e
                | Inr rest \<Rightarrow> Inr (x # y # rest))))"

text \<open>
  \<open>None\<close> is the \<^verbatim>\<open>null\<close> the source returns; \<^verbatim>\<open>polygon[0]\<close> of an empty
  array is \<^verbatim>\<open>undefined\<close>.  The guard \<^verbatim>\<open>polygon[0] &&\<close> makes the read of
  \<^verbatim>\<open>polygon[0].x\<close> safe, so its result is taken with the fallback
  \<^verbatim>\<open>undefined\<close>.
\<close>

definition flattenPolygon :: "'n jsval \<Rightarrow> error + 'n jsval list option" where
  "flattenPolygon polygon =
     (case polygon of
        JArray xs \<Rightarrow>
          (let first = (case xs of [] \<Rightarrow> JUndefined | x # _ \<Rightarrow> x) in
           if typeof_number first then Inr (Some xs)
           else if truthy first \<and>
                   (case get_prop first ''x'' of Inl e \<Rightarrow> False | Inr v \<Rightarrow> typeof_number v)
           then (case flatMap_xy xs of Inl e \<Rightarrow> Inl e | Inr flat \<Rightarrow> Inr (Some flat))
           else Inr None)
      | _ \<Rightarrow> Inr None)"

subsection \<open>The analysis result\<close>

text \<open>
  Field names carry the name of their object as a prefix (\<open>line_content\<close> is
  \<^verbatim>\<open>line.content\<close>), so that the local variables of the source keep their names.
\<close>

record 'n doc_line =
  line_content :: string
  line_polygon :: "'n jsval"

record 'n doc_page =
  page_pageNumber :: nat
  page_lines :: "'n doc_line list option"

record 'n bounding_region =
  region_pageNumber :: nat
  region_polygon :: "'n jsval"

record 'n doc_paragraph =
  paragraph_content :: string
  paragraph_role :: "string option"
  paragraph_boundingRegions :: "'n bounding_region list option"

record 'n analyze_result =
  result_pages :: "'n doc_page list option"
  result_paragraphs :: "'n doc_paragraph list option"

subsection \<open>The output\<close>

text \<open>The value of a \<^verbatim>\<open>linePolygonMap\<close> entry, \<^verbatim>\<open>{page, polygon}\<close>.\<close>

record 'n line_entry =
  entry_page :: nat
  entry_polygon :: "'n jsval list"

text \<open>An element of \<^verbatim>\<open>items\<close>; a \<^verbatim>\<open>null\<close> source is \<open>None\<close>.\<close>

record 'n content_item =
  item_id :: string
  item_type :: string
  item_content :: string
  item_page :: nat
  item_boundingBox :: "'n jsval list"
  item_source :: "string option"

text \<open>The returned object \<^verbatim>\<open>{items, fullText, pageCount}\<close>.\<close>

record 'n structured_content =
  out_items :: "'n content_item list"
  out_fullText :: string
  out_pageCount :: nat

subsection \<open>Strings\<close>

definition newline :: char where
  "newline = CHR 0x0A"

definition is_upper :: "char \<Rightarrow> bool" where
  "is_upper c = (let n = (of_char c :: nat) in 65 \<le> n \<and> n \<le> 90)"

definition is_digit :: "char \<Rightarrow> bool" where
  "is_digit c = (let n = (of_char c :: nat) in 48 \<le> n \<and> n \<le> 57)"

text \<open>
  The white space of \<^verbatim>\<open>trim\<close> and of \<^verbatim>\<open>\s\<close> among 8-bit code units: tab, line
  feed, vertical tab, form feed, carriage return, space and no-break space.
\<close>

definition is_space :: "char \<Rightarrow> bool" where
  "is_space c = ((of_char c :: nat) \<in> {9, 10, 11, 12, 13, 32, 160})"

definition lower :: "char \<Rightarrow> char" where
  "lower c = (if is_upper c then char_of ((of_char c :: nat) + 32) else c)"

definition trim :: "string \<Rightarrow> string" where
  "trim s = rev (dropWhile is_space (rev (dropWhile is_space s)))"

text \<open>\<^verbatim>\<open>s.split(c)\<close> for a separator of one character.\<close>

fun split_char :: "char \<Rightarrow> string \<Rightarrow> string list" where
  "split_char c [] = [[]]"
| "split_char c (x # xs) =
     (if x = c then [] # split_char c xs
      else (let r = split_char c xs in (x # hd r) # tl r))"

text \<open>
  \<^verbatim>\<open>s.startsWith(arr[i])\<close>: an index out of range gives \<^verbatim>\<open>undefined\<close>, which
  \<^verbatim>\<open>startsWith\<close> converts to the string \<^verbatim>\<open>"undefined"\<close>.
\<close>

definition starts_with_elem :: "string \<Rightarrow> string list \<Rightarrow> nat \<Rightarrow> bool" where
  "starts_with_elem s arr i = prefix (if i < length arr then arr ! i else ''undefined'') s"

subsection \<open>The heading patterns\<close>

text \<open>
  Every pattern of the source is anchored at the start and is a sequence of
  single characters and of character classes under \<^verbatim>\<open>+\<close> or \<^verbatim>\<open>*\<close>, some
  anchored at the end.  \<open>rx_match items eol s\<close> holds when some way of matching
  \<open>items\<close> consumes a prefix of \<open>s\<close> (all of \<open>s\<close> when \<open>eol\<close>), which is when
  \<^verbatim>\<open>s.match(...)\<close> is not \<^verbatim>\<open>null\<close>.
\<close>

datatype rx_item = One "char \<Rightarrow> bool" | Star "char \<Rightarrow> bool" | Plus "char \<Rightarrow> bool"

fun rx_match :: "rx_item list \<Rightarrow> bool \<Rightarrow> string \<Rightarrow> bool" where
  "rx_match [] eol s = (if eol then s = [] else True)"
| "rx_match (One cls # r) eol s = (case s of [] \<Rightarrow> False | x # xs \<Rightarrow> cls x \<and> rx_match r eol xs)"
| "rx_match (Star cls # r) eol s =
     (rx_match r eol s \<or> (case s of [] \<Rightarrow> False | x # xs \<Rightarrow> cls x \<and> rx_match (Star cls # r) eol xs))"
| "rx_match (Plus cls # r) eol s =
     (case s of [] \<Rightarrow> False | x # xs \<Rightarrow> cls x \<and> rx_match (Star cls # r) eol xs)"

text \<open>A word under the flag \<^verbatim>\<open>i\<close>.\<close>

definition word_i :: "string \<Rightarrow> rx_item list" where
  "word_i w = map (\<lambda>ch. One (\<lambda>c. lower c = lower ch)) w"

definition digits_dots :: "rx_item list" where
  "digits_dots = [Plus is_space, Plus (\<lambda>c. is_digit c \<or> c = CHR ''.'')]"

definition roman_digits_i :: "rx_item list" where
  "roman_digits_i = [Plus is_space, Plus (\<lambda>c. lower c \<in> set ''ivx'' \<or> is_digit c)]"

text \<open>
  The test shared by both paths:
  \<^verbatim>\<open>content.length < 150 && (content.match(...) || ... )\<close>, the eight patterns in
  the order of the source.
\<close>

definition heading_shape :: "string \<Rightarrow> bool" where
  "heading_shape content =
     (length content < 150 \<and>
      (rx_match [One is_upper, Plus (\<lambda>c. is_upper c \<or> is_space c)] True content \<or>
       rx_match [Plus is_digit, One (\<lambda>c. c = CHR ''.'')] False content \<or>
       rx_match (word_i ''Article'' @ roman_digits_i) False content \<or>
       rx_match (word_i ''Section'' @ digits_dots) False content \<or>
       rx_match (word_i ''ARTICLE'' @ roman_digits_i) False content \<or>
       rx_match (word_i ''SECTION'' @ digits_dots) False content \<or>
       rx_match [One is_upper, Star (\<lambda>c. c \<notin> set ''.!?''), One (\<lambda>c. c = CHR '':'')] True content \<or>
       rx_match (word_i ''Clause'' @ digits_dots) False content))"

subsection \<open>Loops\<close>

text \<open>
  \<^verbatim>\<open>xs.forEach((x, index) => ...)\<close> with a body that updates the variables \<open>s\<close> of
  the enclosing function and may throw; \<open>index\<close> is the index of the first element.
\<close>

fun forEach :: "('a \<Rightarrow> nat \<Rightarrow> 's \<Rightarrow> error + 's) \<Rightarrow> 'a list \<Rightarrow> nat \<Rightarrow> 's \<Rightarrow> error + 's" where
  "forEach body [] index s = Inr s"
| "forEach body (x # xs) index s =
     (case body x index s of
        Inl e \<Rightarrow> Inl e
      | Inr s' \<Rightarrow> forEach body xs (Suc index) s')"

text \<open>\<^verbatim>\<open>xs.map(f)\<close> with a callback that may throw.\<close>

fun map_throwing :: "('a \<Rightarrow> error + 'b) \<Rightarrow> 'a list \<Rightarrow> error + 'b list" where
  "map_throwing f [] = Inr []"
| "map_throwing f (x # xs) =
     (case f x of
        Inl e \<Rightarrow> Inl e
      | Inr y \<Rightarrow> (case map_throwing f xs of Inl e \<Rightarrow> Inl e | Inr ys \<Rightarrow> Inr (y # ys)))"

subsection \<open>The map of line polygons\<close>

text \<open>
  \<^verbatim>\<open>linePolygonMap\<close> is a \<^verbatim>\<open>Map\<close> with string keys, iterated in insertion order:
  an association list, where \<^verbatim>\<open>has\<close> and \<^verbatim>\<open>get\<close> are \<open>map_of\<close> and
  \<^verbatim>\<open>set\<close> is \<open>AList.update\<close> (a new key goes to the end).
\<close>

type_synonym 'n line_map = "(string \<times> 'n line_entry) list"

text \<open>The key \<^verbatim>\<open>`${page.pageNumber}:${line.content.trim()}`\<close> of line 174.\<close>

definition line_key :: "'n doc_page \<Rightarrow> 'n doc_line \<Rightarrow> string" where
  "line_key page line = show_nat (page_pageNumber page) @ '':'' @ trim (line_content line)"

text \<open>The body of the inner loop of lines 173 to 182, for a line of \<open>page\<close>.\<close>

definition index_line :: "'n doc_page \<Rightarrow> 'n doc_line \<Rightarrow> 'n line_map \<Rightarrow> error + 'n line_map" where
  "index_line page line linePolygonMap =
     (let key = line_key page line in
      case flattenPolygon (line_polygon line) of
        Inl e \<Rightarrow> Inl e
      | Inr flatPoly \<Rightarrow>
          Inr (case flatPoly of
                 None \<Rightarrow> linePolygonMap
               | Some poly \<Rightarrow>
                   if map_of linePolygonMap key = None \<and> 8 \<le> length poly
                   then AList.update key
                          \<lparr>entry_page = page_pageNumber page, entry_polygon = poly\<rparr> linePolygonMap
                   else linePolygonMap))"

definition index_page :: "'n doc_page \<Rightarrow> 'n line_map \<Rightarrow> error + 'n line_map" where
  "index_page page linePolygonMap =
     (case page_lines page of
        None \<Rightarrow> Inr linePolygonMap
      | Some ls \<Rightarrow> forEach (\<lambda>line _. index_line page line) ls 0 linePolygonMap)"

text \<open>Lines 169 to 185: the map built from \<^verbatim>\<open>result.pages\<close>.\<close>

definition build_linePolygonMap :: "'n analyze_result \<Rightarrow> error + 'n line_map" where
  "build_linePolygonMap result =
     (case result_pages result of
        None \<Rightarrow> Inr []
      | Some ps \<Rightarrow> forEach (\<lambda>page _. index_page page) ps 0 [])"

text \<open>
  The loop of lines 203 to 207 over the entries, in insertion order, returning at
  the first entry that passes the test.
\<close>

fun scan_entries :: "'n line_map \<Rightarrow> string \<Rightarrow> nat \<Rightarrow> 'n line_entry option" where
  "scan_entries [] content pageNumber = None"
| "scan_entries ((key, v) # rest) content pageNumber =
     (if prefix (show_nat pageNumber @ '':'') key \<and>
         starts_with_elem (trim content) (split_char (CHR '':'') key) 1
      then Some v
      else scan_entries rest content pageNumber)"

text \<open>
  \<^verbatim>\<open>findLinePolygon\<close>, with the map of the enclosing function as an argument;
  \<^verbatim>\<open>content.split('\n')\<close> is never empty, so its element 0 is the head.
\<close>

definition findLinePolygon :: "'n line_map \<Rightarrow> string \<Rightarrow> nat \<Rightarrow> 'n line_entry option" where
  "findLinePolygon linePolygonMap content pageNumber =
     (let exactKey = show_nat pageNumber @ '':'' @ trim content in
      if map_of linePolygonMap exactKey \<noteq> None then map_of linePolygonMap exactKey
      else
        let firstLine = trim (hd (split_char newline content));
            firstLineKey = show_nat pageNumber @ '':'' @ firstLine in
        if map_of linePolygonMap firstLineKey \<noteq> None then map_of linePolygonMap firstLineKey
        else scan_entries linePolygonMap content pageNumber)"

subsection \<open>extractStructuredContent\<close>

text \<open>The template literal \<^verbatim>\<open>D(${pageNumber},${p[0]},...,${p[7]})\<close>.\<close>

definition source_string :: "('n \<Rightarrow> string) \<Rightarrow> nat \<Rightarrow> 'n jsval list \<Rightarrow> string" where
  "source_string ns pageNumber p =
     ''D('' @ show_nat pageNumber @ '','' @ to_string ns (p ! 0) @ '','' @ to_string ns (p ! 1) @
     '','' @ to_string ns (p ! 2) @ '','' @ to_string ns (p ! 3) @ '','' @ to_string ns (p ! 4) @
     '','' @ to_string ns (p ! 5) @ '','' @ to_string ns (p ! 6) @ '','' @ to_string ns (p ! 7) @ '')''"

text \<open>The callback of \<^verbatim>\<open>paragraph.boundingRegions.map\<close>, lines 243 to 250.\<close>

definition region_source :: "('n \<Rightarrow> string) \<Rightarrow> 'n bounding_region \<Rightarrow> error + string option" where
  "region_source ns region =
     (case flattenPolygon (region_polygon region) of
        Inl e \<Rightarrow> Inl e
      | Inr flatPoly \<Rightarrow>
          Inr (case flatPoly of
                 None \<Rightarrow> None
               | Some p \<Rightarrow>
                   if 8 \<le> length p then Some (source_string ns (region_pageNumber region) p)
                   else None))"

text \<open>\<^verbatim>\<open>.filter(s => s)\<close>: \<^verbatim>\<open>null\<close> and the empty string are dropped.\<close>

definition filter_truthy :: "string option list \<Rightarrow> string list" where
  "filter_truthy xs = concat (map (\<lambda>s. case s of None \<Rightarrow> [] | Some t \<Rightarrow> if t = [] then [] else [t]) xs)"

text \<open>\<^verbatim>\<open>paragraph.boundingRegions?.[0]\<close>\<close>

definition first_region :: "'n doc_paragraph \<Rightarrow> 'n bounding_region option" where
  "first_region paragraph =
     (case paragraph_boundingRegions paragraph of
        None \<Rightarrow> None
      | Some [] \<Rightarrow> None
      | Some (r # _) \<Rightarrow> Some r)"

text \<open>\<^verbatim>\<open>paragraph.boundingRegions?.[0]?.polygon\<close>\<close>

definition first_polygon :: "'n doc_paragraph \<Rightarrow> 'n jsval" where
  "first_polygon paragraph =
     (case first_region paragraph of None \<Rightarrow> JUndefined | Some r \<Rightarrow> region_polygon r)"

text \<open>
  Lines 241 to 252: \<^verbatim>\<open>source\<close> stays \<^verbatim>\<open>null\<close> unless
  \<^verbatim>\<open>paragraph.boundingRegions\<close> is a non-empty array.
\<close>

definition paragraph_source :: "('n \<Rightarrow> string) \<Rightarrow> 'n doc_paragraph \<Rightarrow> error + string option" where
  "paragraph_source ns paragraph =
     (case paragraph_boundingRegions paragraph of
        None \<Rightarrow> Inr None
      | Some regions \<Rightarrow>
          if 0 < length regions
          then (case map_throwing (region_source ns) regions of
                  Inl e \<Rightarrow> Inl e
                | Inr sources \<Rightarrow> Inr (Some (join '';'' (filter_truthy sources))))
          else Inr None)"

text \<open>\<^verbatim>\<open>paragraph.role || 'paragraph'\<close>: an absent and an empty role both give the default.\<close>

definition role_or_default :: "string option \<Rightarrow> string" where
  "role_or_default r = (case r of None \<Rightarrow> ''paragraph'' | Some s \<Rightarrow> if s = [] then ''paragraph'' else s)"

text \<open>The test of lines 220 to 232.\<close>

definition isHeading_paragraph :: "string \<Rightarrow> string \<Rightarrow> bool" where
  "isHeading_paragraph content role =
     (role = ''title'' \<or> role = ''sectionHeading'' \<or> role = ''pageHeader'' \<or>
      heading_shape content)"

text \<open>
  The body of the loop over the paragraphs, lines 214 to 261, on the variables
  \<open>(items, fullText)\<close>.
\<close>

definition paragraph_body ::
  "('n \<Rightarrow> string) \<Rightarrow> 'n doc_paragraph \<Rightarrow> nat \<Rightarrow> 'n content_item list \<times> string
     \<Rightarrow> error + 'n content_item list \<times> string" where
  "paragraph_body ns paragraph index st =
     (let items = fst st; fullText = snd st;
          content = paragraph_content paragraph;
          role = role_or_default (paragraph_role paragraph);
          fullText = fullText @ content @ [newline, newline];
          isHeading = isHeading_paragraph content role;
          pageNumber = (case first_region paragraph of
                          None \<Rightarrow> 1
                        | Some r \<Rightarrow> if region_pageNumber r = 0 then 1 else region_pageNumber r)
      in
      case flattenPolygon (first_polygon paragraph) of
        Inl e \<Rightarrow> Inl e
      | Inr flat \<Rightarrow>
          (let boundingPolygon = (case flat of None \<Rightarrow> [] | Some p \<Rightarrow> p) in
           case paragraph_source ns paragraph of
             Inl e \<Rightarrow> Inl e
           | Inr source \<Rightarrow>
               Inr (items @
                      [\<lparr>item_id = ''item-'' @ show_nat index,
                        item_type = (if isHeading then ''heading'' else ''paragraph''),
                        item_content = content,
                        item_page = pageNumber,
                        item_boundingBox = boundingPolygon,
                        item_source = source\<rparr>],
                    fullText)))"

text \<open>The body of the loop over the lines of a page, lines 270 to 298.\<close>

definition line_body ::
  "('n \<Rightarrow> string) \<Rightarrow> 'n doc_page \<Rightarrow> nat \<Rightarrow> 'n doc_line \<Rightarrow> nat \<Rightarrow> 'n content_item list \<times> string
     \<Rightarrow> error + 'n content_item list \<times> string" where
  "line_body ns page pageIndex line lineIndex st =
     (let items = fst st; fullText = snd st;
          fullText = fullText @ line_content line @ [newline];
          content = line_content line;
          isHeading = heading_shape content
      in
      case flattenPolygon (line_polygon line) of
        Inl e \<Rightarrow> Inl e
      | Inr flatPoly \<Rightarrow>
          (let source = (case flatPoly of
                           None \<Rightarrow> None
                         | Some p \<Rightarrow>
                             if 8 \<le> length p then Some (source_string ns (page_pageNumber page) p)
                             else None)
           in
           Inr (items @
                  [\<lparr>item_id = ''page-'' @ show_nat pageIndex @ ''-line-'' @ show_nat lineIndex,
                    item_type = (if isHeading then ''heading'' else ''paragraph''),
                    item_content = content,
                    item_page = page_pageNumber page,
                    item_boundingBox = (case flatPoly of None \<Rightarrow> [] | Some p \<Rightarrow> p),
                    item_source = source\<rparr>],
                fullText)))"

definition page_body ::
  "('n \<Rightarrow> string) \<Rightarrow> 'n doc_page \<Rightarrow> nat \<Rightarrow> 'n content_item list \<times> string
     \<Rightarrow> error + 'n content_item list \<times> string" where
  "page_body ns page pageIndex st =
     (case page_lines page of
        None \<Rightarrow> Inr st
      | Some ls \<Rightarrow> forEach (line_body ns page pageIndex) ls 0 st)"

text \<open>
  The function of lines 164 to 309.  The map is built first; nothing after line
  210 reads it, since \<^verbatim>\<open>findLinePolygon\<close> has no call.
\<close>

definition extractStructuredContent ::
  "('n \<Rightarrow> string) \<Rightarrow> 'n analyze_result \<Rightarrow> error + 'n structured_content" where
  "extractStructuredContent ns result =
     (case build_linePolygonMap result of
        Inl e \<Rightarrow> Inl e
      | Inr linePolygonMap \<Rightarrow>
          (case (case result_paragraphs result of
                   None \<Rightarrow> Inr ([], [])
                 | Some ps \<Rightarrow> forEach (paragraph_body ns) ps 0 ([], [])) of
             Inl e \<Rightarrow> Inl e
           | Inr st \<Rightarrow>
               (case (if length (fst st) = 0
                      then (case result_pages result of
                              None \<Rightarrow> Inr st
                            | Some ps \<Rightarrow> forEach (page_body ns) ps 0 st)
                      else Inr st) of
                  Inl e \<Rightarrow> Inl e
                | Inr st' \<Rightarrow>
                    Inr \<lparr>out_items = fst st',
                         out_fullText = snd st',
                         out_pageCount = (case result_pages result of
                                            None \<Rightarrow> 0
                                          | Some ps \<Rightarrow> length ps)\<rparr>)))"

subsection \<open>Notions used to state the properties\<close>

text \<open>The lines of the pages in the order the loops visit them.\<close>

definition lines_of :: "'n doc_page \<Rightarrow> 'n doc_line list" where
  "lines_of page = (case page_lines page of None \<Rightarrow> [] | Some ls \<Rightarrow> ls)"

definition paged_lines :: "'n doc_page list \<Rightarrow> ('n doc_page \<times> 'n doc_line) list" where
  "paged_lines ps = concat (map (\<lambda>page. map (Pair page) (lines_of page)) ps)"

text \<open>
  The entry a line offers to the map: its flattened polygon when that has at
  least 8 elements, nothing otherwise.
\<close>

definition entry_of :: "'n doc_page \<Rightarrow> 'n doc_line \<Rightarrow> 'n line_entry option" where
  "entry_of page line =
     (case flattenPolygon (line_polygon line) of
        Inr (Some poly) \<Rightarrow>
          if 8 \<le> length poly
          then Some \<lparr>entry_page = page_pageNumber page, entry_polygon = poly\<rparr>
          else None
      | _ \<Rightarrow> None)"

text \<open>The first line, in visiting order, that has the key \<open>k\<close> and offers an entry.\<close>

fun first_seen :: "string \<Rightarrow> ('n doc_page \<times> 'n doc_line) list \<Rightarrow> 'n line_entry option" where
  "first_seen k [] = None"
| "first_seen k ((page, line) # rest) =
     (if line_key page line = k \<and> entry_of page line \<noteq> None then entry_of page line
      else first_seen k rest)"

text \<open>
  The number of coordinates of a region's flattened polygon; a polygon that
  \<^verbatim>\<open>flattenPolygon\<close> maps to \<^verbatim>\<open>null\<close> has none.
\<close>

definition flat_length :: "'n jsval \<Rightarrow> nat" where
  "flat_length polygon = (case flattenPolygon polygon of Inr (Some p) \<Rightarrow> length p | _ \<Rightarrow> 0)"





text \<open>
  A polygon that, when it is an array, is in one of the two encodings of the
  analysis engine: an array of numbers, or an array of point objects with
  numeric \<^verbatim>\<open>x\<close> and \<^verbatim>\<open>y\<close>.
\<close>

definition is_xy_point :: "'n jsval \<Rightarrow> bool" where
  "is_xy_point v =
     (case v of
        JObject kvs \<Rightarrow>
          (case (map_of kvs ''x'', map_of kvs ''y'') of
             (Some (JNumber _), Some (JNumber _)) \<Rightarrow> True
           | _ \<Rightarrow> False)
      | _ \<Rightarrow> False)"

definition typed_polygon :: "'n jsval \<Rightarrow> bool" where
  "typed_polygon polygon =
     (case polygon of
        JArray xs \<Rightarrow> list_all typeof_number xs \<or> list_all is_xy_point xs
      | _ \<Rightarrow> True)"

text \<open>What holds of the map after the lines \<open>pls\<close> have been visited.\<close>

definition indexed :: "'n line_map \<Rightarrow> ('n doc_page \<times> 'n doc_line) list \<Rightarrow> bool" where
  "indexed m pls \<longleftrightarrow>
     (\<forall>ke\<in>set m. 8 \<le> length (entry_polygon (snd ke))) \<and>
     distinct (map fst m) \<and>
     (\<forall>k. map_of m k = first_seen k pls)"

text \<open>What an item of the fallback path takes from its line and the page of the line.\<close>

definition line_item :: "'n doc_page \<times> 'n doc_line \<Rightarrow> 'n content_item \<Rightarrow> bool" where
  "line_item pl it \<longleftrightarrow>
     item_content it = line_content (snd pl) \<and>
     item_type it = (if heading_shape (line_content (snd pl)) then ''heading'' else ''paragraph'') \<and>
     item_page it = page_pageNumber (fst pl)"




text \<open>The items' contents, each followed by a blank line.\<close>

definition with_blank_lines :: "'n content_item list \<Rightarrow> string" where
  "with_blank_lines its = concat (map (\<lambda>it. item_content it @ [newline, newline]) its)"

text \<open>Whether the loop over the paragraphs pushes an item.\<close>

definition paragraph_path :: "'n analyze_result \<Rightarrow> bool" where
  "paragraph_path result =
     (case result_paragraphs result of None \<Rightarrow> False | Some ps \<Rightarrow> ps \<noteq> [])"

subsection \<open>Example inputs and outputs\<close>

text \<open>
  Concrete results of the analysis engine, with natural numbers for the
  coordinates (rendered by \<open>show_nat\<close>), and what the functions return on them.
\<close>

abbreviation (input) quad :: "nat jsval list" where
  "quad \<equiv> [JNumber 1, JNumber 2, JNumber 3, JNumber 4, JNumber 5, JNumber 6, JNumber 7, JNumber 8]"

abbreviation (input) two_paragraphs :: "nat doc_paragraph list" where
  "two_paragraphs \<equiv>
     [\<lparr>paragraph_content = ''ARTICLE I. DEFINITIONS'', paragraph_role = Some ''sectionHeading'',
       paragraph_boundingRegions = Some [\<lparr>region_pageNumber = 2, region_polygon = JArray quad\<rparr>]\<rparr>,
      \<lparr>paragraph_content = ''Hello'', paragraph_role = None, paragraph_boundingRegions = None\<rparr>]"

abbreviation (input) two_paragraphs_out :: "nat structured_content" where
  "two_paragraphs_out \<equiv>
     \<lparr>out_items =
        [\<lparr>item_id = ''item-0'', item_type = ''heading'', item_content = ''ARTICLE I. DEFINITIONS'',
          item_page = 2, item_boundingBox = quad, item_source = Some ''D(2,1,2,3,4,5,6,7,8)''\<rparr>,
         \<lparr>item_id = ''item-1'', item_type = ''paragraph'', item_content = ''Hello'',
          item_page = 1, item_boundingBox = [], item_source = None\<rparr>],
      out_fullText = ''ARTICLE I. DEFINITIONS\<newline>\<newline>Hello\<newline>\<newline>'',
      out_pageCount = 0\<rparr>"

abbreviation (input) no_regions_result :: "nat analyze_result" where
  "no_regions_result \<equiv>
     \<lparr>result_pages = None,
      result_paragraphs = Some
        [\<lparr>paragraph_content = ''Recitals'', paragraph_role = Some ''title'',
          paragraph_boundingRegions = Some []\<rparr>]\<rparr>"

abbreviation (input) no_regions_out :: "nat structured_content" where
  "no_regions_out \<equiv>
     \<lparr>out_items =
        [\<lparr>item_id = ''item-0'', item_type = ''heading'', item_content = ''Recitals'',
          item_page = 1, item_boundingBox = [], item_source = None\<rparr>],
      out_fullText = ''Recitals\<newline>\<newline>'',
      out_pageCount = 0\<rparr>"

abbreviation (input) hello_line_map :: "nat line_map" where
  "hello_line_map \<equiv> [(''1:Hello'', \<lparr>entry_page = 1, entry_polygon = quad\<rparr>)]"

abbreviation (input) hello_result :: "nat analyze_result" where
  "hello_result \<equiv>
     \<lparr>result_pages = Some
        [\<lparr>page_pageNumber = 1,
          page_lines = Some [\<lparr>line_content = ''Hello'', line_polygon = JArray quad\<rparr>]\<rparr>],
      result_paragraphs = Some
        [\<lparr>paragraph_content = ''Hello'', paragraph_role = None,
          paragraph_boundingRegions = None\<rparr>]\<rparr>"

abbreviation (input) hello_out :: "nat structured_content" where
  "hello_out \<equiv>
     \<lparr>out_items =
        [\<lparr>item_id = ''item-0'', item_type = ''paragraph'', item_content = ''Hello'',
          item_page = 1, item_boundingBox = [], item_source = None\<rparr>],
      out_fullText = ''Hello\<newline>\<newline>'',
      out_pageCount = 1\<rparr>"

abbreviation (input) commencement :: string where
  "commencement \<equiv> ''1.1 This Agreement shall commence on the Effective Date and continue for a period of five years unless earlier terminated as provided herein.''"

abbreviation (input) commencement_renewed :: string where
  "commencement_renewed \<equiv> ''1.1 This Agreement shall commence on the Effective Date and continue for a period of five years unless earlier terminated as provided herein, as renewed.''"

abbreviation (input) renewed_result :: "nat analyze_result" where
  "renewed_result \<equiv>
     \<lparr>result_pages = None,
      result_paragraphs = Some
        [\<lparr>paragraph_content = commencement_renewed, paragraph_role = Some ''paragraph'',
          paragraph_boundingRegions = None\<rparr>]\<rparr>"

abbreviation (input) renewed_out :: "nat structured_content" where
  "renewed_out \<equiv>
     \<lparr>out_items =
        [\<lparr>item_id = ''item-0'', item_type = ''paragraph'', item_content = commencement_renewed,
          item_page = 1, item_boundingBox = [], item_source = None\<rparr>],
      out_fullText = commencement_renewed @ ''\<newline>\<newline>'',
      out_pageCount = 0\<rparr>"

abbreviation (input) three_sources :: "nat doc_paragraph list" where
  "three_sources \<equiv>
     [\<lparr>paragraph_content = ''A'', paragraph_role = None, paragraph_boundingRegions = None\<rparr>,
      \<lparr>paragraph_content = ''B'', paragraph_role = None,
       paragraph_boundingRegions = Some
         [\<lparr>region_pageNumber = 1, region_polygon = JArray [JNumber 1, JNumber 2]\<rparr>,
          \<lparr>region_pageNumber = 1, region_polygon = JString ''box''\<rparr>]\<rparr>,
      \<lparr>paragraph_content = ''C'', paragraph_role = None,
       paragraph_boundingRegions = Some
         [\<lparr>region_pageNumber = 3, region_polygon = JArray quad\<rparr>,
          \<lparr>region_pageNumber = 4, region_polygon = JNull\<rparr>,
          \<lparr>region_pageNumber = 4, region_polygon = JArray quad\<rparr>]\<rparr>]"

abbreviation (input) three_sources_out :: "nat structured_content" where
  "three_sources_out \<equiv>
     \<lparr>out_items =
        [\<lparr>item_id = ''item-0'', item_type = ''paragraph'', item_content = ''A'',
          item_page = 1, item_boundingBox = [], item_source = None\<rparr>,
         \<lparr>item_id = ''item-1'', item_type = ''paragraph'', item_content = ''B'',
          item_page = 1, item_boundingBox = [JNumber 1, JNumber 2], item_source = Some []\<rparr>,
         \<lparr>item_id = ''item-2'', item_type = ''paragraph'', item_content = ''C'',
          item_page = 3, item_boundingBox = quad,
          item_source = Some ''D(3,1,2,3,4,5,6,7,8);D(4,1,2,3,4,5,6,7,8)''\<rparr>],
      out_fullText = ''A\<newline>\<newline>B\<newline>\<newline>C\<newline>\<newline>'',
      out_pageCount = 0\<rparr>"

abbreviation (input) section_result :: "nat analyze_result" where
  "section_result \<equiv>
     \<lparr>result_pages = Some
        [\<lparr>page_pageNumber = 1,
          page_lines = Some [\<lparr>line_content = ''SECTION 1'', line_polygon = JUndefined\<rparr>,
                             \<lparr>line_content = ''Text body here.'', line_polygon = JUndefined\<rparr>]\<rparr>],
      result_paragraphs = None\<rparr>"

abbreviation (input) section_out :: "nat structured_content" where
  "section_out \<equiv>
     \<lparr>out_items =
        [\<lparr>item_id = ''page-0-line-0'', item_type = ''heading'', item_content = ''SECTION 1'',
          item_page = 1, item_boundingBox = [], item_source = None\<rparr>,
         \<lparr>item_id = ''page-0-line-1'', item_type = ''paragraph'',
          item_content = ''Text body here.'',
          item_page = 1, item_boundingBox = [], item_source = None\<rparr>],
      out_fullText = ''SECTION 1\<newline>Text body here.\<newline>'',
      out_pageCount = 1\<rparr>"

abbreviation (input) quad2 :: "nat jsval list" where
  "quad2 \<equiv> [JNumber 9, JNumber 9, JNumber 8, JNumber 9, JNumber 8, JNumber 7, JNumber 9, JNumber 7]"

abbreviation (input) confidential_pages :: "nat doc_page list" where
  "confidential_pages \<equiv>
     [\<lparr>page_pageNumber = 1,
       page_lines = Some
         [\<lparr>line_content = ''Draft'', line_polygon = JArray [JNumber 1, JNumber 2]\<rparr>,
          \<lparr>line_content = ''Confidential'', line_polygon = JArray quad\<rparr>,
          \<lparr>line_content = '' Confidential '', line_polygon = JArray quad2\<rparr>]\<rparr>]"

abbreviation (input) confidential_map :: "nat line_map" where
  "confidential_map \<equiv> [(''1:Confidential'', \<lparr>entry_page = 1, entry_polygon = quad\<rparr>)]"

abbreviation (input) term_result :: "nat analyze_result" where
  "term_result \<equiv>
     \<lparr>result_pages = Some
        [\<lparr>page_pageNumber = 1,
          page_lines = Some [\<lparr>line_content = ''Term: 5 years'', line_polygon = JArray quad\<rparr>]\<rparr>],
      result_paragraphs = None\<rparr>"

abbreviation (input) term_map :: "nat line_map" where
  "term_map \<equiv> [(''1:Term: 5 years'', \<lparr>entry_page = 1, entry_polygon = quad\<rparr>)]"




section \<open>Properties\<close>

subsection \<open>Runs of the examples\<close>

lemma two_paragraphs_run:
  "extractStructuredContent show_nat
     \<lparr>result_pages = None, result_paragraphs = Some two_paragraphs\<rparr> = Inr two_paragraphs_out"
  by code_simp

subsection \<open>Decimal rendering\<close>

lemma show_nat_nonempty: "show_nat n \<noteq> []"
  by (subst show_nat.simps) simp

lemma digit_char_inj: "a < 10 \<Longrightarrow> b < 10 \<Longrightarrow> digit_char a = digit_char b \<Longrightarrow> a = b"
  by (simp add: digit_char_def char_of_eq_iff take_bit_nat_eq_self)

lemma show_nat_inj: "show_nat m = show_nat n \<Longrightarrow> m = n"
proof (induction n arbitrary: m rule: show_nat.induct)
  case (1 n)
  show ?case
  proof (cases "n < 10")
    case True
    show ?thesis
    proof (cases "m < 10")
      case mlt: True
      with True "1.prems" show ?thesis
        by (simp add: show_nat.simps [of m] show_nat.simps [of n] digit_char_inj)
    next
      case False
      with True "1.prems" show ?thesis
        by (simp add: show_nat.simps [of m] show_nat.simps [of n] show_nat_nonempty show_nat_nonempty [symmetric])
    qed
  next
    case False
    show ?thesis
    proof (cases "m < 10")
      case True
      with False "1.prems" show ?thesis
        by (simp add: show_nat.simps [of m] show_nat.simps [of n] show_nat_nonempty show_nat_nonempty [symmetric])
    next
      case mge: False
      with False "1.prems" have e: "show_nat (m div 10) = show_nat (n div 10)"
        and d: "digit_char (m mod 10) = digit_char (n mod 10)"
        by (simp_all add: show_nat.simps [of m] show_nat.simps [of n])
      from "1.IH" [OF False e] have "m div 10 = n div 10" .
      moreover from d have "m mod 10 = n mod 10" by (simp add: digit_char_inj)
      ultimately show ?thesis by (metis div_mult_mod_eq)
    qed
  qed
qed

subsection \<open>The loops\<close>

lemma forEach_push:
  assumes step: "\<And>x i s s'. x \<in> set xs \<Longrightarrow> body x i s = Inr s' \<Longrightarrow>
                   \<exists>it. s' = (fst s @ [it], snd s @ txt x) \<and> R x i it"
    and run: "forEach body xs i s = Inr s'"
  shows "\<exists>its. s' = (fst s @ its, snd s @ concat (map txt xs)) \<and> length its = length xs \<and>
               (\<forall>k<length xs. R (xs ! k) (i + k) (its ! k))"
  using step run
proof (induction xs arbitrary: i s)
  case Nil
  then show ?case by simp
next
  case (Cons x xs)
  from Cons.prems(2) obtain s1 where b: "body x i s = Inr s1" and r: "forEach body xs (Suc i) s1 = Inr s'"
    by (auto split: sum.splits)
  from Cons.prems(1) [OF _ b] obtain it where s1: "s1 = (fst s @ [it], snd s @ txt x)" and Rx: "R x i it"
    by auto
  have "\<exists>its. s' = (fst s1 @ its, snd s1 @ concat (map txt xs)) \<and> length its = length xs \<and>
               (\<forall>k<length xs. R (xs ! k) (Suc i + k) (its ! k))"
    by (rule Cons.IH [OF _ r]) (use Cons.prems(1) in auto)
  then obtain its where its: "s' = (fst s1 @ its, snd s1 @ concat (map txt xs))" "length its = length xs"
    "\<forall>k<length xs. R (xs ! k) (Suc i + k) (its ! k)" by blast
  have "\<forall>k<length (x # xs). R ((x # xs) ! k) (i + k) ((it # its) ! k)"
  proof (intro allI impI)
    fix k assume "k < length (x # xs)"
    then show "R ((x # xs) ! k) (i + k) ((it # its) ! k)"
      using Rx its(3) by (cases k) auto
  qed
  with its(1,2) s1 show ?case
    by (intro exI [of _ "it # its"]) simp
qed

text \<open>A paragraph pushes one item, which does not depend on the items pushed before.\<close>

lemma isHeading_paragraph_role:
  "isHeading_paragraph content (role_or_default r) \<longleftrightarrow>
     r \<in> {Some ''title'', Some ''sectionHeading'', Some ''pageHeader''} \<or> heading_shape content"
  by (cases r) (auto simp: isHeading_paragraph_def role_or_default_def)

lemma paragraph_body_Inr:
  assumes "paragraph_body ns p i s = Inr s'"
  shows "\<exists>flat src.
           flattenPolygon (first_polygon p) = Inr flat \<and>
           paragraph_source ns p = Inr src \<and>
           s' = (fst s @
                   [\<lparr>item_id = ''item-'' @ show_nat i,
                     item_type =
                       (if isHeading_paragraph (paragraph_content p)
                             (role_or_default (paragraph_role p))
                        then ''heading'' else ''paragraph''),
                     item_content = paragraph_content p,
                     item_page = (case first_region p of None \<Rightarrow> 1
                                  | Some r \<Rightarrow> if region_pageNumber r = 0 then 1
                                             else region_pageNumber r),
                     item_boundingBox = (case flat of None \<Rightarrow> [] | Some q \<Rightarrow> q),
                     item_source = src\<rparr>],
                 snd s @ paragraph_content p @ [newline, newline])"
proof (cases "flattenPolygon (first_polygon p)")
  case (Inl e)
  with assms show ?thesis by (simp add: paragraph_body_def Let_def)
next
  case flat: (Inr flat)
  show ?thesis
  proof (cases "paragraph_source ns p")
    case (Inl e)
    with flat assms show ?thesis by (simp add: paragraph_body_def Let_def)
  next
    case (Inr src)
    with flat assms have "s' = (fst s @
                   [\<lparr>item_id = ''item-'' @ show_nat i,
                     item_type =
                       (if isHeading_paragraph (paragraph_content p)
                             (role_or_default (paragraph_role p))
                        then ''heading'' else ''paragraph''),
                     item_content = paragraph_content p,
                     item_page = (case first_region p of None \<Rightarrow> 1
                                  | Some r \<Rightarrow> if region_pageNumber r = 0 then 1
                                             else region_pageNumber r),
                     item_boundingBox = (case flat of None \<Rightarrow> [] | Some q \<Rightarrow> q),
                     item_source = src\<rparr>],
                 snd s @ paragraph_content p @ [newline, newline])"
      by (simp add: paragraph_body_def Let_def)
    with flat Inr show ?thesis by blast
  qed
qed

lemma paragraph_body_start:
  assumes "flattenPolygon (first_polygon p) = Inr flat" and "paragraph_source ns p = Inr src"
  shows "paragraph_body ns p i ([], []) =
           Inr ([\<lparr>item_id = ''item-'' @ show_nat i,
                     item_type =
                       (if isHeading_paragraph (paragraph_content p)
                             (role_or_default (paragraph_role p))
                        then ''heading'' else ''paragraph''),
                     item_content = paragraph_content p,
                     item_page = (case first_region p of None \<Rightarrow> 1
                                  | Some r \<Rightarrow> if region_pageNumber r = 0 then 1
                                             else region_pageNumber r),
                     item_boundingBox = (case flat of None \<Rightarrow> [] | Some q \<Rightarrow> q),
                     item_source = src\<rparr>],
                paragraph_content p @ [newline, newline])"
  using assms by (simp add: paragraph_body_def Let_def)

lemma paragraph_body_push:
  assumes "paragraph_body ns p i s = Inr s'"
  shows "\<exists>it. s' = (fst s @ [it], snd s @ paragraph_content p @ [newline, newline]) \<and>
              paragraph_body ns p i ([], []) = Inr ([it], paragraph_content p @ [newline, newline])"
  using paragraph_body_Inr [OF assms] paragraph_body_start [of p _ ns _ i] by blast

lemma paragraphs_loop:
  assumes "forEach (paragraph_body ns) ps i s = Inr s'"
  shows "\<exists>its. s' = (fst s @ its, snd s @ concat (map (\<lambda>p. paragraph_content p @ [newline, newline]) ps)) \<and>
           length its = length ps \<and>
           (\<forall>k<length ps. paragraph_body ns (ps ! k) (i + k) ([], []) =
                Inr ([its ! k], paragraph_content (ps ! k) @ [newline, newline]))"
  by (rule forEach_push [OF _ assms]) (rule paragraph_body_push)

lemma extract_paragraph_path:
  assumes ex: "extractStructuredContent ns r = Inr out"
    and ps: "result_paragraphs r = Some ps" and ne: "ps \<noteq> []"
  shows "length (out_items out) = length ps \<and>
         out_fullText out = concat (map (\<lambda>p. paragraph_content p @ [newline, newline]) ps) \<and>
         (\<forall>k<length ps. paragraph_body ns (ps ! k) k ([], []) =
              Inr ([out_items out ! k], paragraph_content (ps ! k) @ [newline, newline]))"
proof -
  from ex ps obtain st where run: "forEach (paragraph_body ns) ps 0 ([], []) = Inr st"
    by (auto simp: extractStructuredContent_def split: sum.splits)
  from paragraphs_loop [OF run] obtain its where
    st: "st = (its, concat (map (\<lambda>p. paragraph_content p @ [newline, newline]) ps))"
    and len: "length its = length ps"
    and each: "\<forall>k<length ps. paragraph_body ns (ps ! k) k ([], []) =
                Inr ([its ! k], paragraph_content (ps ! k) @ [newline, newline])"
    by auto
  from len ne have "length (fst st) \<noteq> 0" by (simp add: st)
  with ex ps run have "out_items out = fst st" "out_fullText out = snd st"
    by (auto simp: extractStructuredContent_def split: sum.splits)
  with st len each show ?thesis by simp
qed

lemma paragraph_body_fields:
  assumes "paragraph_body ns p i ([], []) = Inr ([it], t)"
  shows "item_id it = ''item-'' @ show_nat i"
    and "item_content it = paragraph_content p"
    and "item_page it = (case first_region p of None \<Rightarrow> 1
                          | Some r \<Rightarrow> if region_pageNumber r = 0 then 1 else region_pageNumber r)"
    and "\<exists>flat. flattenPolygon (first_polygon p) = Inr flat \<and>
                item_boundingBox it = (case flat of None \<Rightarrow> [] | Some q \<Rightarrow> q)"
    and "paragraph_source ns p = Inr (item_source it)"
    and "item_type it =
           (if paragraph_role p \<in> {Some ''title'', Some ''sectionHeading'', Some ''pageHeader''} \<or>
               heading_shape (paragraph_content p)
            then ''heading'' else ''paragraph'')"
proof -
  from paragraph_body_Inr [OF assms] obtain flat src where
    f: "flattenPolygon (first_polygon p) = Inr flat" and sr: "paragraph_source ns p = Inr src"
    and it: "it = \<lparr>item_id = ''item-'' @ show_nat i,
                     item_type =
                       (if isHeading_paragraph (paragraph_content p)
                             (role_or_default (paragraph_role p))
                        then ''heading'' else ''paragraph''),
                     item_content = paragraph_content p,
                     item_page = (case first_region p of None \<Rightarrow> 1
                                  | Some r \<Rightarrow> if region_pageNumber r = 0 then 1
                                             else region_pageNumber r),
                     item_boundingBox = (case flat of None \<Rightarrow> [] | Some q \<Rightarrow> q),
                     item_source = src\<rparr>" by auto
  show "item_id it = ''item-'' @ show_nat i" by (simp add: it)
  show "item_content it = paragraph_content p" by (simp add: it)
  show "item_page it = (case first_region p of None \<Rightarrow> 1
                          | Some r \<Rightarrow> if region_pageNumber r = 0 then 1 else region_pageNumber r)"
    by (simp add: it)
  show "\<exists>flat. flattenPolygon (first_polygon p) = Inr flat \<and>
                item_boundingBox it = (case flat of None \<Rightarrow> [] | Some q \<Rightarrow> q)"
    using f by (simp add: it)
  show "paragraph_source ns p = Inr (item_source it)" using sr by (simp add: it)
  show "item_type it =
           (if paragraph_role p \<in> {Some ''title'', Some ''sectionHeading'', Some ''pageHeader''} \<or>
               heading_shape (paragraph_content p)
            then ''heading'' else ''paragraph'')"
    unfolding it using isHeading_paragraph_role [of "paragraph_content p" "paragraph_role p"]
    by simp
qed

lemma extract_paragraph_at:
  assumes "extractStructuredContent ns r = Inr out"
    and "result_paragraphs r = Some ps" and "k < length ps"
  shows "paragraph_body ns (ps ! k) k ([], []) =
           Inr ([out_items out ! k], paragraph_content (ps ! k) @ [newline, newline])"
proof -
  from assms(3) have "ps \<noteq> []" by auto
  from extract_paragraph_path [OF assms(1,2) this] assms(3) show ?thesis by blast
qed

lemma flattenPolygon_absent: "flattenPolygon JUndefined = Inr None"
  by (simp add: flattenPolygon_def)

subsection \<open>Items of the paragraph path\<close>

text \<open>
  Claim C2.  When the result has at least one paragraph and the function
  returns, there is one item per paragraph, the contents of the items are the
  contents of the paragraphs in the same order, the item at position \<open>k\<close> has
  the id \<^verbatim>\<open>item-k\<close>, and no two items share an id.
\<close>

theorem C2_items_follow_paragraphs:
  assumes "extractStructuredContent ns r = Inr out"
    and "result_paragraphs r = Some ps" and "ps \<noteq> []"
  shows "length (out_items out) = length ps \<and>
         map item_content (out_items out) = map paragraph_content ps \<and>
         (\<forall>k<length ps. item_id (out_items out ! k) = ''item-'' @ show_nat k) \<and>
         distinct (map item_id (out_items out))"
proof -
  note path = extract_paragraph_path [OF assms]
  from path have len: "length (out_items out) = length ps" by simp
  have ids: "item_id (out_items out ! k) = ''item-'' @ show_nat k" if "k < length ps" for k
    using path that paragraph_body_fields(1) by blast
  have cont: "item_content (out_items out ! k) = paragraph_content (ps ! k)" if "k < length ps" for k
    using path that paragraph_body_fields(2) by blast
  have "map item_content (out_items out) = map paragraph_content ps"
    by (rule nth_equalityI) (simp_all add: len cont)
  moreover have "distinct (map item_id (out_items out))"
    unfolding distinct_conv_nth
  proof (intro allI impI)
    fix i j
    assume "i < length (map item_id (out_items out))" "j < length (map item_id (out_items out))" "i \<noteq> j"
    then show "map item_id (out_items out) ! i \<noteq> map item_id (out_items out) ! j"
      using ids [of i] ids [of j] len show_nat_inj by auto
  qed
  ultimately show ?thesis using len ids by simp
qed

theorem C2_items_follow_paragraphs_witness:
  "extractStructuredContent show_nat
     \<lparr>result_pages = None, result_paragraphs = Some two_paragraphs\<rparr> = Inr two_paragraphs_out \<and>
   two_paragraphs \<noteq> [] \<and>
   length (out_items two_paragraphs_out) = length two_paragraphs \<and>
   map item_content (out_items two_paragraphs_out) = map paragraph_content two_paragraphs \<and>
   item_id (out_items two_paragraphs_out ! 0) = ''item-'' @ show_nat 0 \<and>
   item_id (out_items two_paragraphs_out ! 1) = ''item-'' @ show_nat 1 \<and>
   distinct (map item_id (out_items two_paragraphs_out))"
proof -
  have ne: "two_paragraphs \<noteq> []" by simp
  have ps: "result_paragraphs \<lparr>result_pages = None, result_paragraphs = Some two_paragraphs\<rparr> =
              Some two_paragraphs" by simp
  note c = C2_items_follow_paragraphs [OF two_paragraphs_run ps ne]
  from c have ids: "\<forall>k<length two_paragraphs.
      item_id (out_items two_paragraphs_out ! k) = ''item-'' @ show_nat k"
    by blast
  have "0 < length two_paragraphs" and "1 < length two_paragraphs" by simp_all
  with ids have "item_id (out_items two_paragraphs_out ! 0) = ''item-'' @ show_nat 0"
    and "item_id (out_items two_paragraphs_out ! 1) = ''item-'' @ show_nat 1"
    by blast+
  with c two_paragraphs_run ne show ?thesis by blast
qed

text \<open>
  Claim C9.  A paragraph whose \<^verbatim>\<open>boundingRegions\<close> is the empty array gives an
  item with page 1, an empty bounding box and the source \<^verbatim>\<open>null\<close>.
\<close>

theorem C9_empty_boundingRegions:
  assumes "extractStructuredContent ns r = Inr out"
    and "result_paragraphs r = Some ps" and "k < length ps"
    and "paragraph_boundingRegions (ps ! k) = Some []"
  shows "item_page (out_items out ! k) = 1 \<and>
         item_boundingBox (out_items out ! k) = [] \<and>
         item_source (out_items out ! k) = None"
proof -
  note body = extract_paragraph_at [OF assms(1-3)]
  have fr: "first_region (ps ! k) = None"
    by (simp add: first_region_def assms(4))
  have src: "paragraph_source ns (ps ! k) = Inr None"
    by (simp add: paragraph_source_def assms(4))
  from paragraph_body_fields(3) [OF body] fr have "item_page (out_items out ! k) = 1" by simp
  moreover from paragraph_body_fields(4) [OF body] fr
  have "item_boundingBox (out_items out ! k) = []"
    by (auto simp: first_polygon_def flattenPolygon_absent)
  moreover from paragraph_body_fields(5) [OF body] src
  have "item_source (out_items out ! k) = None" by simp
  ultimately show ?thesis by simp
qed

theorem C9_empty_boundingRegions_witness:
  "extractStructuredContent show_nat no_regions_result = Inr no_regions_out \<and>
   paragraph_boundingRegions (the (result_paragraphs no_regions_result) ! 0) = Some [] \<and>
   item_page (out_items no_regions_out ! 0) = 1 \<and>
   item_boundingBox (out_items no_regions_out ! 0) = [] \<and>
   item_source (out_items no_regions_out ! 0) = None"
proof -
  have run: "extractStructuredContent show_nat no_regions_result = Inr no_regions_out"
    by code_simp
  have ps: "result_paragraphs no_regions_result = Some (the (result_paragraphs no_regions_result))"
    by simp
  have k: "0 < length (the (result_paragraphs no_regions_result))" by simp
  have e: "paragraph_boundingRegions (the (result_paragraphs no_regions_result) ! 0) = Some []"
    by simp
  from C9_empty_boundingRegions [OF run ps k e] run e show ?thesis by blast
qed

subsection \<open>The bounding box of a paragraph\<close>

text \<open>
  Claim C1, as amended.  The bounding box of the item of a paragraph is the
  flattened polygon of the paragraph's first bounding region, and the empty
  sequence when that polygon is absent or of no recognised shape; the pages and
  the map of line polygons have no part in it.
\<close>

theorem C1_boundingBox_is_own_polygon:
  assumes "extractStructuredContent ns r = Inr out"
    and "result_paragraphs r = Some ps" and "k < length ps"
  shows "item_boundingBox (out_items out ! k) =
           (case flattenPolygon (first_polygon (ps ! k)) of Inr (Some q) \<Rightarrow> q | _ \<Rightarrow> [])"
proof -
  note body = extract_paragraph_at [OF assms]
  from paragraph_body_fields(4) [OF body] obtain flat where
    f: "flattenPolygon (first_polygon (ps ! k)) = Inr flat" and
    b: "item_boundingBox (out_items out ! k) = (case flat of None \<Rightarrow> [] | Some q \<Rightarrow> q)"
    by blast
  show ?thesis by (cases flat) (simp_all add: f b)
qed

lemma hello_run: "extractStructuredContent show_nat hello_result = Inr hello_out"
  by code_simp

text \<open>
  The claim as stated fails: the paragraph has no polygon of its own, the map
  holds the line with the same text on page 1 and \<^verbatim>\<open>findLinePolygon\<close> finds it,
  and the bounding box of the item is empty all the same.
\<close>

theorem C1_counterexample:
  "build_linePolygonMap hello_result = Inr hello_line_map \<and>
   findLinePolygon hello_line_map ''Hello'' 1 = Some \<lparr>entry_page = 1, entry_polygon = quad\<rparr> \<and>
   extractStructuredContent show_nat hello_result = Inr hello_out \<and>
   item_boundingBox (out_items hello_out ! 0) = []"
proof -
  have "build_linePolygonMap hello_result = Inr hello_line_map" by code_simp
  moreover have "findLinePolygon hello_line_map ''Hello'' 1 =
      Some \<lparr>entry_page = 1, entry_polygon = quad\<rparr>" by code_simp
  ultimately show ?thesis using hello_run by simp
qed

theorem C1_boundingBox_is_own_polygon_witness:
  "extractStructuredContent show_nat
     \<lparr>result_pages = None, result_paragraphs = Some two_paragraphs\<rparr> = Inr two_paragraphs_out \<and>
   item_boundingBox (out_items two_paragraphs_out ! 0) =
     (case flattenPolygon (first_polygon (two_paragraphs ! 0)) of Inr (Some q) \<Rightarrow> q | _ \<Rightarrow> []) \<and>
   flattenPolygon (first_polygon (two_paragraphs ! 0)) = Inr (Some quad)"
proof -
  have ps: "result_paragraphs \<lparr>result_pages = None, result_paragraphs = Some two_paragraphs\<rparr> =
              Some two_paragraphs" by simp
  have k: "0 < length two_paragraphs" by simp
  have "flattenPolygon (first_polygon (two_paragraphs ! 0)) = Inr (Some quad)"
    by (simp add: first_polygon_def first_region_def flattenPolygon_def)
  with C1_boundingBox_is_own_polygon [OF two_paragraphs_run ps k] two_paragraphs_run
  show ?thesis by blast
qed

subsection \<open>The length gate\<close>

text \<open>
  Claim C5, as amended.  A paragraph whose role is none of \<^verbatim>\<open>title\<close>,
  \<^verbatim>\<open>sectionHeading\<close> and \<^verbatim>\<open>pageHeader\<close> and whose content has 150 characters
  or more gives an item of type \<^verbatim>\<open>paragraph\<close>, whatever pattern the content
  matches.
\<close>

theorem C5_long_content_is_paragraph:
  assumes "extractStructuredContent ns r = Inr out"
    and "result_paragraphs r = Some ps" and "k < length ps"
    and "paragraph_role (ps ! k) \<notin> {Some ''title'', Some ''sectionHeading'', Some ''pageHeader''}"
    and "150 \<le> length (paragraph_content (ps ! k))"
  shows "item_type (out_items out ! k) = ''paragraph''"
proof -
  note body = extract_paragraph_at [OF assms(1-3)]
  from assms(5) have "\<not> heading_shape (paragraph_content (ps ! k))"
    by (simp add: heading_shape_def)
  with paragraph_body_fields(6) [OF body] assms(4) show ?thesis by simp
qed

text \<open>
  The example of the claim fails: its content has 141 characters, so the length
  gate passes, the content starts with \<^verbatim>\<open>1.\<close>, and the item is a heading.
\<close>

theorem C5_counterexample:
  "length commencement = 141 \<and>
   extractStructuredContent show_nat
     \<lparr>result_pages = None,
      result_paragraphs = Some
        [\<lparr>paragraph_content = commencement, paragraph_role = Some ''paragraph'',
          paragraph_boundingRegions = None\<rparr> :: nat doc_paragraph]\<rparr> =
   Inr \<lparr>out_items =
          [\<lparr>item_id = ''item-0'', item_type = ''heading'', item_content = commencement,
            item_page = 1, item_boundingBox = [], item_source = None\<rparr>],
        out_fullText = commencement @ ''\<newline>\<newline>'',
        out_pageCount = 0\<rparr>"
  by code_simp

theorem C5_long_content_is_paragraph_witness:
  "extractStructuredContent show_nat renewed_result = Inr renewed_out \<and>
   paragraph_role (the (result_paragraphs renewed_result) ! 0) = Some ''paragraph'' \<and>
   150 \<le> length (paragraph_content (the (result_paragraphs renewed_result) ! 0)) \<and>
   item_type (out_items renewed_out ! 0) = ''paragraph''"
proof -
  have run: "extractStructuredContent show_nat renewed_result = Inr renewed_out"
    by code_simp
  have ps: "result_paragraphs renewed_result = Some (the (result_paragraphs renewed_result))"
    by simp
  have k: "0 < length (the (result_paragraphs renewed_result))" by simp
  have role: "paragraph_role (the (result_paragraphs renewed_result) ! 0) \<notin>
                {Some ''title'', Some ''sectionHeading'', Some ''pageHeader''}" by simp
  have "paragraph_role (the (result_paragraphs renewed_result) ! 0) = Some ''paragraph''" by simp
  moreover have len: "150 \<le> length (paragraph_content (the (result_paragraphs renewed_result) ! 0))"
    by simp
  ultimately show ?thesis
    using C5_long_content_is_paragraph [OF run ps k role len] run by blast
qed

subsection \<open>The source of a paragraph\<close>

lemma join_nonempty: "xs \<noteq> [] \<Longrightarrow> \<forall>x\<in>set xs. x \<noteq> [] \<Longrightarrow> join sep xs \<noteq> []"
  by (induction sep xs rule: join.induct) auto

lemma filter_truthy_Nil: "filter_truthy [] = []"
  by (simp add: filter_truthy_def)

lemma filter_truthy_Cons:
  "filter_truthy (x # xs) =
     (case x of None \<Rightarrow> [] | Some t \<Rightarrow> if t = [] then [] else [t]) @ filter_truthy xs"
  by (simp add: filter_truthy_def)

lemma filter_truthy_elems: "x \<in> set (filter_truthy xs) \<Longrightarrow> x \<noteq> []"
  by (auto simp: filter_truthy_def split: option.splits if_splits)

lemma source_string_nonempty: "source_string ns n p \<noteq> []"
  by (simp add: source_string_def)

lemma region_source_None:
  assumes "region_source ns region = Inr s"
  shows "(s = None \<or> s = Some []) \<longleftrightarrow> flat_length (region_polygon region) < 8"
proof (cases "flattenPolygon (region_polygon region)")
  case (Inl e)
  with assms show ?thesis by (simp add: region_source_def)
next
  case (Inr flatPoly)
  show ?thesis
  proof (cases flatPoly)
    case None
    with Inr assms show ?thesis by (auto simp: region_source_def flat_length_def)
  next
    case (Some q)
    with Inr assms show ?thesis
      by (cases "8 \<le> length q") (auto simp: region_source_def flat_length_def source_string_nonempty)
  qed
qed
lemma sources_empty:
  "map_throwing (region_source ns) regions = Inr sources \<Longrightarrow>
   filter_truthy sources = [] \<longleftrightarrow> (\<forall>r\<in>set regions. flat_length (region_polygon r) < 8)"
proof (induction regions arbitrary: sources)
  case Nil
  then show ?case by (simp add: filter_truthy_Nil)
next
  case (Cons r rs)
  from Cons.prems obtain y ys where y: "region_source ns r = Inr y"
    and ys: "map_throwing (region_source ns) rs = Inr ys" and s: "sources = y # ys"
    by (auto split: sum.splits)
  have "(case y of None \<Rightarrow> [] | Some t \<Rightarrow> if t = [] then [] else [t]) = [] \<longleftrightarrow>
          flat_length (region_polygon r) < 8"
    using region_source_None [OF y] by (auto split: option.splits)
  with Cons.IH [OF ys] s show ?case
    by (simp add: filter_truthy_Cons)
qed

lemma paragraph_source_cases:
  assumes "paragraph_source ns p = Inr src"
  shows "(src = None \<longleftrightarrow>
            paragraph_boundingRegions p = None \<or> paragraph_boundingRegions p = Some []) \<and>
         (src = Some [] \<longleftrightarrow>
            (\<exists>rs. paragraph_boundingRegions p = Some rs \<and> rs \<noteq> [] \<and>
                  (\<forall>r\<in>set rs. flat_length (region_polygon r) < 8)))"
proof (cases "paragraph_boundingRegions p")
  case None
  with assms show ?thesis by (simp add: paragraph_source_def)
next
  case (Some rs)
  show ?thesis
  proof (cases "rs = []")
    case True
    with Some assms show ?thesis by (simp add: paragraph_source_def)
  next
    case False
    with Some assms obtain sources where m: "map_throwing (region_source ns) rs = Inr sources"
      and src: "src = Some (join '';'' (filter_truthy sources))"
      by (auto simp: paragraph_source_def split: sum.splits)
    have "join '';'' (filter_truthy sources) = [] \<longleftrightarrow> filter_truthy sources = []"
      using join_nonempty [of "filter_truthy sources" "'';''"] filter_truthy_elems
      by auto
    with sources_empty [OF m] src Some False show ?thesis by simp
  qed
qed

text \<open>
  Claim C10.  The source of the item of a paragraph is \<^verbatim>\<open>null\<close> exactly when
  \<^verbatim>\<open>boundingRegions\<close> is absent or empty, and it is the empty string exactly
  when \<^verbatim>\<open>boundingRegions\<close> is non-empty and the flattened polygon of every
  region has fewer than 8 coordinates.
\<close>

theorem C10_source_null_or_empty:
  assumes "extractStructuredContent ns r = Inr out"
    and "result_paragraphs r = Some ps" and "k < length ps"
  shows "(item_source (out_items out ! k) = None \<longleftrightarrow>
            paragraph_boundingRegions (ps ! k) = None \<or>
            paragraph_boundingRegions (ps ! k) = Some []) \<and>
         (item_source (out_items out ! k) = Some [] \<longleftrightarrow>
            (\<exists>rs. paragraph_boundingRegions (ps ! k) = Some rs \<and> rs \<noteq> [] \<and>
                  (\<forall>region\<in>set rs. flat_length (region_polygon region) < 8)))"
proof -
  note body = extract_paragraph_at [OF assms]
  from paragraph_body_fields(5) [OF body]
  have "paragraph_source ns (ps ! k) = Inr (item_source (out_items out ! k))" .
  from paragraph_source_cases [OF this] show ?thesis .
qed

lemma three_sources_run:
  "extractStructuredContent show_nat
     \<lparr>result_pages = None, result_paragraphs = Some three_sources\<rparr> = Inr three_sources_out"
  by code_simp

theorem C10_source_null_or_empty_witness:
  "extractStructuredContent show_nat
     \<lparr>result_pages = None, result_paragraphs = Some three_sources\<rparr> = Inr three_sources_out \<and>
   ((item_source (out_items three_sources_out ! 1) = None) =
      (paragraph_boundingRegions (three_sources ! 1) = None \<or>
       paragraph_boundingRegions (three_sources ! 1) = Some [])) \<and>
   ((item_source (out_items three_sources_out ! 1) = Some []) =
      (\<exists>rs. paragraph_boundingRegions (three_sources ! 1) = Some rs \<and> rs \<noteq> [] \<and>
            (\<forall>region\<in>set rs. flat_length (region_polygon region) < 8))) \<and>
   item_source (out_items three_sources_out ! 0) = None \<and>
   item_source (out_items three_sources_out ! 1) = Some [] \<and>
   item_source (out_items three_sources_out ! 2) \<noteq> None \<and>
   item_source (out_items three_sources_out ! 2) \<noteq> Some []"
proof -
  have ps: "result_paragraphs \<lparr>result_pages = None, result_paragraphs = Some three_sources\<rparr> =
              Some three_sources" by simp
  have k: "1 < length three_sources" by simp
  have "item_source (out_items three_sources_out ! 0) = None"
    and "item_source (out_items three_sources_out ! 1) = Some []"
    and "item_source (out_items three_sources_out ! 2) \<noteq> None"
    and "item_source (out_items three_sources_out ! 2) \<noteq> Some []"
    by simp_all
  with C10_source_null_or_empty [OF three_sources_run ps k] three_sources_run
  show ?thesis by blast
qed

subsection \<open>The fallback path\<close>

lemma line_body_push:
  assumes "line_body ns page pageIndex line lineIndex s = Inr s'"
  shows "\<exists>it. s' = (fst s @ [it], snd s @ line_content line @ [newline]) \<and>
              line_item (page, line) it"
proof (cases "flattenPolygon (line_polygon line)")
  case (Inl e)
  with assms show ?thesis by (simp add: line_body_def Let_def)
next
  case (Inr flatPoly)
  with assms have "s' = (fst s @
      [\<lparr>item_id = ''page-'' @ show_nat pageIndex @ ''-line-'' @ show_nat lineIndex,
        item_type = (if heading_shape (line_content line) then ''heading'' else ''paragraph''),
        item_content = line_content line,
        item_page = page_pageNumber page,
        item_boundingBox = (case flatPoly of None \<Rightarrow> [] | Some p \<Rightarrow> p),
        item_source = (case flatPoly of
                           None \<Rightarrow> None
                         | Some p \<Rightarrow>
                             if 8 \<le> length p then Some (source_string ns (page_pageNumber page) p)
                             else None)\<rparr>],
      snd s @ line_content line @ [newline])"
    by (simp add: line_body_def Let_def)
  then show ?thesis
    by (intro exI conjI, assumption) (simp add: line_item_def)
qed

lemma page_body_loop:
  assumes "page_body ns page pageIndex s = Inr s'"
  shows "\<exists>its. s' = (fst s @ its,
                      snd s @ concat (map (\<lambda>l. line_content l @ [newline]) (lines_of page))) \<and>
               list_all2 line_item (map (Pair page) (lines_of page)) its"
proof (cases "page_lines page")
  case None
  with assms show ?thesis by (simp add: page_body_def lines_of_def)
next
  case (Some ls)
  with assms have run: "forEach (line_body ns page pageIndex) ls 0 s = Inr s'"
    by (simp add: page_body_def)
  have "\<exists>its. s' = (fst s @ its, snd s @ concat (map (\<lambda>l. line_content l @ [newline]) ls)) \<and>
          length its = length ls \<and>
          (\<forall>k<length ls. line_item (page, ls ! k) (its ! k))"
    by (rule forEach_push [OF _ run, where R = "\<lambda>l i it. line_item (page, l) it"])
       (rule line_body_push)
  then obtain its where "s' = (fst s @ its, snd s @ concat (map (\<lambda>l. line_content l @ [newline]) ls))"
    "length its = length ls" "\<forall>k<length ls. line_item (page, ls ! k) (its ! k)" by blast
  with Some show ?thesis
    by (intro exI [of _ its]) (simp add: lines_of_def list_all2_conv_all_nth)
qed

lemma pages_loop:
  "forEach (page_body ns) ps i s = Inr s' \<Longrightarrow>
   \<exists>its. s' = (fst s @ its,
               snd s @ concat (map (\<lambda>pl. line_content (snd pl) @ [newline]) (paged_lines ps))) \<and>
         list_all2 line_item (paged_lines ps) its"
proof (induction ps arbitrary: i s)
  case Nil
  then show ?case by (simp add: paged_lines_def)
next
  case (Cons page ps)
  from Cons.prems obtain s1 where b: "page_body ns page i s = Inr s1"
    and r: "forEach (page_body ns) ps (Suc i) s1 = Inr s'"
    by (auto split: sum.splits)
  from page_body_loop [OF b] obtain its1 where
    s1: "s1 = (fst s @ its1, snd s @ concat (map (\<lambda>l. line_content l @ [newline]) (lines_of page)))"
    and a1: "list_all2 line_item (map (Pair page) (lines_of page)) its1" by blast
  from Cons.IH [OF r] obtain its2 where
    s': "s' = (fst s1 @ its2,
               snd s1 @ concat (map (\<lambda>pl. line_content (snd pl) @ [newline]) (paged_lines ps)))"
    and a2: "list_all2 line_item (paged_lines ps) its2" by blast
  have pl: "paged_lines (page # ps) = map (Pair page) (lines_of page) @ paged_lines ps"
    by (simp add: paged_lines_def)
  have "list_all2 line_item (paged_lines (page # ps)) (its1 @ its2)"
    unfolding pl using a1 a2 by (rule list_all2_appendI)
  moreover have "s' = (fst s @ its1 @ its2,
     snd s @ concat (map (\<lambda>pl. line_content (snd pl) @ [newline]) (paged_lines (page # ps))))"
    by (simp add: s' s1 pl comp_def)
  ultimately show ?case by blast
qed

lemma extract_line_path:
  assumes ex: "extractStructuredContent ns r = Inr out" and np: "\<not> paragraph_path r"
  shows "forEach (page_body ns) (case result_pages r of None \<Rightarrow> [] | Some ps \<Rightarrow> ps) 0 ([], []) =
           Inr (out_items out, out_fullText out)"
proof -
  from np have "(case result_paragraphs r of None \<Rightarrow> Inr ([], [])
                 | Some ps \<Rightarrow> forEach (paragraph_body ns) ps 0 ([], [])) = Inr ([], [])"
    by (auto simp: paragraph_path_def split: option.splits)
  with ex show ?thesis
    by (auto simp: extractStructuredContent_def split: sum.splits option.splits)
qed

lemma line_items_of_pages:
  assumes "list_all2 line_item pls its"
  shows "map item_content its = map (\<lambda>pl. line_content (snd pl)) pls"
    and "map item_page its = map (\<lambda>pl. page_pageNumber (fst pl)) pls"
    and "map item_type its =
           map (\<lambda>pl. if heading_shape (line_content (snd pl)) then ''heading'' else ''paragraph'') pls"
    and "map (\<lambda>it. item_content it @ [newline]) its =
           map (\<lambda>pl. line_content (snd pl) @ [newline]) pls"
  using assms by (induction rule: list_all2_induct; simp add: line_item_def)+

lemma extract_line_items:
  assumes ex: "extractStructuredContent ns r = Inr out" and np: "\<not> paragraph_path r"
  shows "out_fullText out =
           concat (map (\<lambda>pl. line_content (snd pl) @ [newline])
                     (paged_lines (case result_pages r of None \<Rightarrow> [] | Some ps \<Rightarrow> ps)))"
    and "list_all2 line_item
           (paged_lines (case result_pages r of None \<Rightarrow> [] | Some ps \<Rightarrow> ps)) (out_items out)"
  using pages_loop [OF extract_line_path [OF ex np]] by auto

lemma heading_SECTION_1: "heading_shape ''SECTION 1''"
  by code_simp

lemma not_heading_Text_body: "\<not> heading_shape ''Text body here.''"
  by code_simp

text \<open>
  Claim C7.  When no paragraph pushes an item and the result has pages, the
  items are the lines of the pages, page after page and line after line: each
  item has the content and the page number of its line and is a heading exactly
  when the content of the line has a heading shape, and the full text is the
  contents of the lines, each followed by one newline.  For one page with the
  lines \<^verbatim>\<open>SECTION 1\<close> and \<^verbatim>\<open>Text body here.\<close>, whatever the page number and
  the polygons, the two items are a heading and a paragraph and the full text
  is the two lines, each with its newline.
\<close>

theorem C7_line_fallback:
  "(extractStructuredContent ns r = Inr out \<and> \<not> paragraph_path r \<and> result_pages r = Some ps \<longrightarrow>
      map item_content (out_items out) = map (\<lambda>pl. line_content (snd pl)) (paged_lines ps) \<and>
      map item_page (out_items out) = map (\<lambda>pl. page_pageNumber (fst pl)) (paged_lines ps) \<and>
      map item_type (out_items out) =
        map (\<lambda>pl. if heading_shape (line_content (snd pl)) then ''heading'' else ''paragraph'')
          (paged_lines ps) \<and>
      out_fullText out = concat (map (\<lambda>pl. line_content (snd pl) @ [newline]) (paged_lines ps))) \<and>
   (extractStructuredContent ns
      \<lparr>result_pages = Some
         [\<lparr>page_pageNumber = n,
           page_lines = Some [\<lparr>line_content = ''SECTION 1'', line_polygon = poly1\<rparr>,
                              \<lparr>line_content = ''Text body here.'', line_polygon = poly2\<rparr>]\<rparr>],
       result_paragraphs = None\<rparr> = Inr out' \<longrightarrow>
      map item_content (out_items out') = [''SECTION 1'', ''Text body here.''] \<and>
      map item_type (out_items out') = [''heading'', ''paragraph''] \<and>
      out_fullText out' = ''SECTION 1\<newline>Text body here.\<newline>'')"
proof (intro conjI impI; (elim conjE)?)
  assume ex: "extractStructuredContent ns r = Inr out" and np: "\<not> paragraph_path r"
    and pg: "result_pages r = Some ps"
  from extract_line_items [OF ex np] pg
  have ft: "out_fullText out = concat (map (\<lambda>pl. line_content (snd pl) @ [newline]) (paged_lines ps))"
    and all2: "list_all2 line_item (paged_lines ps) (out_items out)" by simp_all
  note m = line_items_of_pages [OF all2]
  show "map item_content (out_items out) = map (\<lambda>pl. line_content (snd pl)) (paged_lines ps)"
    by (rule m(1))
  show "map item_page (out_items out) = map (\<lambda>pl. page_pageNumber (fst pl)) (paged_lines ps)"
    by (rule m(2))
  show "map item_type (out_items out) =
        map (\<lambda>pl. if heading_shape (line_content (snd pl)) then ''heading'' else ''paragraph'')
          (paged_lines ps)"
    by (rule m(3))
  show "out_fullText out = concat (map (\<lambda>pl. line_content (snd pl) @ [newline]) (paged_lines ps))"
    by (rule ft)
next
  assume ex: "extractStructuredContent ns
      \<lparr>result_pages = Some
         [\<lparr>page_pageNumber = n,
           page_lines = Some [\<lparr>line_content = ''SECTION 1'', line_polygon = poly1\<rparr>,
                              \<lparr>line_content = ''Text body here.'', line_polygon = poly2\<rparr>]\<rparr>],
       result_paragraphs = None\<rparr> = Inr out'"
  have np: "\<not> paragraph_path \<lparr>result_pages = Some
         [\<lparr>page_pageNumber = n,
           page_lines = Some [\<lparr>line_content = ''SECTION 1'', line_polygon = poly1\<rparr>,
                              \<lparr>line_content = ''Text body here.'', line_polygon = poly2\<rparr>]\<rparr>],
       result_paragraphs = None\<rparr>"
    by (simp add: paragraph_path_def)
  have pl: "paged_lines [\<lparr>page_pageNumber = n,
           page_lines = Some [\<lparr>line_content = ''SECTION 1'', line_polygon = poly1\<rparr>,
                              \<lparr>line_content = ''Text body here.'', line_polygon = poly2\<rparr>]\<rparr>] =
     [(\<lparr>page_pageNumber = n,
           page_lines = Some [\<lparr>line_content = ''SECTION 1'', line_polygon = poly1\<rparr>,
                              \<lparr>line_content = ''Text body here.'', line_polygon = poly2\<rparr>]\<rparr>,
       \<lparr>line_content = ''SECTION 1'', line_polygon = poly1\<rparr>),
      (\<lparr>page_pageNumber = n,
           page_lines = Some [\<lparr>line_content = ''SECTION 1'', line_polygon = poly1\<rparr>,
                              \<lparr>line_content = ''Text body here.'', line_polygon = poly2\<rparr>]\<rparr>,
       \<lparr>line_content = ''Text body here.'', line_polygon = poly2\<rparr>)]"
    by (simp add: paged_lines_def lines_of_def)
  from extract_line_items [OF ex np]
  have ft: "out_fullText out' = ''SECTION 1'' @ [newline] @ ''Text body here.'' @ [newline]"
    and all2: "list_all2 line_item
      [(\<lparr>page_pageNumber = n,
           page_lines = Some [\<lparr>line_content = ''SECTION 1'', line_polygon = poly1\<rparr>,
                              \<lparr>line_content = ''Text body here.'', line_polygon = poly2\<rparr>]\<rparr>,
       \<lparr>line_content = ''SECTION 1'', line_polygon = poly1\<rparr>),
      (\<lparr>page_pageNumber = n,
           page_lines = Some [\<lparr>line_content = ''SECTION 1'', line_polygon = poly1\<rparr>,
                              \<lparr>line_content = ''Text body here.'', line_polygon = poly2\<rparr>]\<rparr>,
       \<lparr>line_content = ''Text body here.'', line_polygon = poly2\<rparr>)] (out_items out')"
    by (simp_all add: pl)
  note m = line_items_of_pages [OF all2]
  from m(1) show "map item_content (out_items out') = [''SECTION 1'', ''Text body here.'']"
    by simp
  from m(3) show "map item_type (out_items out') = [''heading'', ''paragraph'']"
    by (simp add: heading_SECTION_1 not_heading_Text_body)
  from ft show "out_fullText out' = ''SECTION 1\<newline>Text body here.\<newline>''"
    by (simp add: newline_def)
qed

lemma section_run: "extractStructuredContent show_nat section_result = Inr section_out"
  by code_simp

theorem C7_line_fallback_witness:
  "extractStructuredContent show_nat section_result = Inr section_out \<and>
   \<not> paragraph_path section_result \<and>
   map item_content (out_items section_out) =
     map (\<lambda>pl. line_content (snd pl)) (paged_lines (the (result_pages section_result))) \<and>
   map item_content (out_items section_out) = [''SECTION 1'', ''Text body here.''] \<and>
   map item_type (out_items section_out) = [''heading'', ''paragraph''] \<and>
   out_fullText section_out = ''SECTION 1\<newline>Text body here.\<newline>''"
proof -
  have np: "\<not> paragraph_path section_result" by (simp add: paragraph_path_def)
  have pg: "result_pages section_result = Some (the (result_pages section_result))" by simp
  from C7_line_fallback [of show_nat section_result section_out "the (result_pages section_result)"
      1 JUndefined JUndefined section_out] section_run np pg
  show ?thesis by blast
qed

subsection \<open>The full text\<close>

text \<open>
  Claim C3, as amended.  The full text is the contents of the items in order,
  each followed by two newlines when the items come from the paragraphs and by
  one newline when they come from the lines of the pages.
\<close>

theorem C3_fullText_follows_items:
  assumes "extractStructuredContent ns r = Inr out"
  shows "out_fullText out =
           concat (map (\<lambda>it. item_content it @
                          (if paragraph_path r then [newline, newline] else [newline]))
                    (out_items out))"
proof (cases "paragraph_path r")
  case True
  then obtain ps where ps: "result_paragraphs r = Some ps" and ne: "ps \<noteq> []"
    by (auto simp: paragraph_path_def split: option.splits)
  note path = extract_paragraph_path [OF assms ps ne]
  have "map item_content (out_items out) = map paragraph_content ps"
  proof (rule nth_equalityI)
    show "length (map item_content (out_items out)) = length (map paragraph_content ps)"
      using path by simp
  next
    fix k assume "k < length (map item_content (out_items out))"
    with path have k: "k < length ps" by simp
    from paragraph_body_fields(2) [OF extract_paragraph_at [OF assms ps k]] k path
    show "map item_content (out_items out) ! k = map paragraph_content ps ! k"
      by simp
  qed
  then have "map (\<lambda>s. s @ [newline, newline]) (map item_content (out_items out)) =
             map (\<lambda>s. s @ [newline, newline]) (map paragraph_content ps)"
    by simp
  then have "map (\<lambda>it. item_content it @ [newline, newline]) (out_items out) =
             map (\<lambda>p. paragraph_content p @ [newline, newline]) ps"
    by (simp add: comp_def)
  with path True show ?thesis by simp
next
  case False
  note li = extract_line_items [OF assms False]
  from line_items_of_pages(4) [OF li(2)] li(1) False show ?thesis by simp
qed

text \<open>
  The claim as stated fails on the fallback path: the full text of the two lines
  is neither their contents each followed by a blank line nor their contents
  with a blank line between them.
\<close>

theorem C3_counterexample:
  "extractStructuredContent show_nat section_result = Inr section_out \<and>
   out_fullText section_out \<noteq> with_blank_lines (out_items section_out) \<and>
   out_fullText section_out \<noteq> join [newline, newline] (map item_content (out_items section_out))"
proof -
  have "out_fullText section_out \<noteq> with_blank_lines (out_items section_out)"
    by (simp add: with_blank_lines_def newline_def)
  moreover have "out_fullText section_out \<noteq>
      join [newline, newline] (map item_content (out_items section_out))"
    by (simp add: newline_def)
  ultimately show ?thesis using section_run by blast
qed

theorem C3_fullText_follows_items_witness:
  "extractStructuredContent show_nat
     \<lparr>result_pages = None, result_paragraphs = Some two_paragraphs\<rparr> = Inr two_paragraphs_out \<and>
   out_fullText two_paragraphs_out =
     concat (map (\<lambda>it. item_content it @
                    (if paragraph_path \<lparr>result_pages = None, result_paragraphs = Some two_paragraphs\<rparr>
                     then [newline, newline] else [newline]))
              (out_items two_paragraphs_out)) \<and>
   out_fullText two_paragraphs_out = with_blank_lines (out_items two_paragraphs_out)"
proof -
  have "out_fullText two_paragraphs_out = with_blank_lines (out_items two_paragraphs_out)"
    by (simp add: with_blank_lines_def newline_def)
  with C3_fullText_follows_items [OF two_paragraphs_run] two_paragraphs_run
  show ?thesis by blast
qed

subsection \<open>Entries of the map of line polygons\<close>

lemma update_fresh: "map_of m k = None \<Longrightarrow> AList.update k v m = m @ [(k, v)]"
  by (induction m) auto

lemma index_line_Inr:
  assumes "index_line page line m = Inr m'"
  shows "m' = (case entry_of page line of
                 None \<Rightarrow> m
               | Some e \<Rightarrow> if map_of m (line_key page line) = None
                           then m @ [(line_key page line, e)] else m)"
proof (cases "flattenPolygon (line_polygon line)")
  case (Inl e)
  with assms show ?thesis by (simp add: index_line_def Let_def)
next
  case (Inr flatPoly)
  show ?thesis
  proof (cases flatPoly)
    case None
    with Inr assms show ?thesis by (auto simp: index_line_def Let_def entry_of_def)
  next
    case (Some poly)
    with Inr assms show ?thesis
      by (auto simp: index_line_def Let_def entry_of_def update_fresh)
  qed
qed

lemma entry_of_length: "entry_of page line = Some e \<Longrightarrow> 8 \<le> length (entry_polygon e)"
  by (auto simp: entry_of_def split: sum.splits option.splits if_splits)

lemma first_seen_append:
  "first_seen k (xs @ ys) = (case first_seen k xs of None \<Rightarrow> first_seen k ys | Some e \<Rightarrow> Some e)"
  by (induction xs) (auto split: option.splits)

lemma indexed_line:
  assumes q: "indexed m pls" and step: "index_line page line m = Inr m'"
  shows "indexed m' (pls @ [(page, line)])"
proof (cases "entry_of page line")
  case None
  with index_line_Inr [OF step] have "m' = m" by simp
  with q None show ?thesis by (auto simp: indexed_def first_seen_append split: option.splits)
next
  case (Some e)
  show ?thesis
  proof (cases "map_of m (line_key page line)")
    case old: (Some e')
    with index_line_Inr [OF step] Some have "m' = m" by simp
    with q Some old show ?thesis
      by (auto simp: indexed_def first_seen_append split: option.splits)
  next
    case None
    with index_line_Inr [OF step] Some have m': "m' = m @ [(line_key page line, e)]" by simp
    from None have fresh: "line_key page line \<notin> fst ` set m"
      by (simp add: map_of_eq_None_iff)
    have "\<forall>k. map_of m' k = first_seen k (pls @ [(page, line)])"
    proof
      fix k
      show "map_of m' k = first_seen k (pls @ [(page, line)])"
        using q None Some
        by (cases "map_of m k")
           (auto simp: m' indexed_def first_seen_append map_add_def split: option.splits)
    qed
    with q fresh entry_of_length [OF Some] show ?thesis
      by (auto simp: m' indexed_def)
  qed
qed

lemma indexed_lines:
  "indexed m pls \<Longrightarrow> forEach (\<lambda>line _. index_line page line) ls i m = Inr m' \<Longrightarrow>
   indexed m' (pls @ map (Pair page) ls)"
proof (induction ls arbitrary: i m pls)
  case Nil
  then show ?case by simp
next
  case (Cons l ls)
  from Cons.prems(2) obtain m1 where s: "index_line page l m = Inr m1"
    and r: "forEach (\<lambda>line _. index_line page line) ls (Suc i) m1 = Inr m'"
    by (auto split: sum.splits)
  from Cons.IH [OF indexed_line [OF Cons.prems(1) s] r] show ?case by simp
qed

lemma indexed_page:
  assumes "indexed m pls" and "index_page page m = Inr m'"
  shows "indexed m' (pls @ map (Pair page) (lines_of page))"
proof (cases "page_lines page")
  case None
  with assms show ?thesis by (simp add: index_page_def lines_of_def)
next
  case (Some ls)
  with assms indexed_lines [of m pls page ls 0 m'] show ?thesis
    by (simp add: index_page_def lines_of_def)
qed

lemma indexed_pages:
  "indexed m pls \<Longrightarrow> forEach (\<lambda>page _. index_page page) ps i m = Inr m' \<Longrightarrow>
   indexed m' (pls @ paged_lines ps)"
proof (induction ps arbitrary: i m pls)
  case Nil
  then show ?case by (simp add: paged_lines_def)
next
  case (Cons page ps)
  from Cons.prems(2) obtain m1 where s: "index_page page m = Inr m1"
    and r: "forEach (\<lambda>page _. index_page page) ps (Suc i) m1 = Inr m'"
    by (auto split: sum.splits)
  from Cons.IH [OF indexed_page [OF Cons.prems(1) s] r] show ?case
    by (simp add: paged_lines_def)
qed

lemma build_indexed:
  assumes "build_linePolygonMap r = Inr m"
  shows "indexed m (paged_lines (case result_pages r of None \<Rightarrow> [] | Some ps \<Rightarrow> ps))"
proof (cases "result_pages r")
  case None
  with assms show ?thesis by (simp add: build_linePolygonMap_def indexed_def paged_lines_def)
next
  case (Some ps)
  have "indexed [] []" by (simp add: indexed_def)
  with assms Some indexed_pages [of "[]" "[]" ps 0 m] show ?thesis
    by (simp add: build_linePolygonMap_def)
qed

text \<open>Numbers only, for polygons of the two encodings.\<close>

lemma flatMap_xy_numbers:
  "list_all is_xy_point xs \<Longrightarrow> flatMap_xy xs = Inr flat \<Longrightarrow> list_all typeof_number flat"
proof (induction xs arbitrary: flat)
  case Nil
  then show ?case by simp
next
  case (Cons pt pts)
  from Cons.prems(1) obtain kvs a b where pt: "pt = JObject kvs"
    and x: "map_of kvs ''x'' = Some (JNumber a)" and y: "map_of kvs ''y'' = Some (JNumber b)"
    by (auto simp: is_xy_point_def split: jsval.splits option.splits)
  with Cons.prems(2) obtain rest where r: "flatMap_xy pts = Inr rest"
    and f: "flat = JNumber a # JNumber b # rest"
    by (auto split: sum.splits)
  from Cons.IH [OF _ r] Cons.prems(1) have "list_all typeof_number rest" by simp
  with f show ?case by simp
qed

lemma typed_flat_numbers:
  assumes "typed_polygon polygon" and "flattenPolygon polygon = Inr (Some flat)"
  shows "list_all typeof_number flat"
proof (cases polygon)
  case (JArray xs)
  show ?thesis
  proof (cases xs)
    case Nil
    with JArray assms(2) show ?thesis by (simp add: flattenPolygon_def)
  next
    case (Cons first rest)
    show ?thesis
    proof (cases "typeof_number first")
      case True
      with JArray Cons assms(2) have flat: "flat = xs" by (simp add: flattenPolygon_def)
      from True have "\<not> is_xy_point first" by (cases first) (simp_all add: is_xy_point_def)
      with assms(1) JArray Cons have "list_all typeof_number xs"
        by (simp add: typed_polygon_def)
      with flat show ?thesis by simp
    next
      case False
      with assms(1) JArray Cons have pts: "list_all is_xy_point xs"
        by (simp add: typed_polygon_def)
      from False JArray Cons assms(2) have "flatMap_xy xs = Inr flat"
        by (auto simp: flattenPolygon_def split: if_splits sum.splits)
      from flatMap_xy_numbers [OF pts this] show ?thesis .
    qed
  qed
qed (use assms in \<open>simp_all add: flattenPolygon_def\<close>)

lemma first_seen_from_line:
  "first_seen k pls = Some e \<Longrightarrow> \<exists>pl\<in>set pls. entry_of (fst pl) (snd pl) = Some e"
  by (induction pls) (auto split: if_splits)

lemma entry_of_numbers:
  assumes "typed_polygon (line_polygon line)" and "entry_of page line = Some e"
  shows "list_all typeof_number (entry_polygon e)"
proof -
  from assms(2) obtain poly where f: "flattenPolygon (line_polygon line) = Inr (Some poly)"
    and e: "entry_polygon e = poly"
    by (auto simp: entry_of_def split: sum.splits option.splits if_splits)
  from typed_flat_numbers [OF assms(1) f] e show ?thesis by simp
qed

text \<open>
  Claim C4.  When the map is built, every entry holds a flattened polygon of at
  least 8 elements, which are all numbers when the polygons of the lines are in
  one of the two encodings; no key occurs twice; and the entry under a key is
  the one offered by the first line, in visiting order, that has this key (the
  same page number and the same trimmed text) and a polygon of at least 8
  elements, so a later line with the same key never replaces it.
\<close>

theorem C4_index_entries:
  assumes "build_linePolygonMap r = Inr m"
  shows "(\<forall>ke\<in>set m. 8 \<le> length (entry_polygon (snd ke))) \<and>
         ((\<forall>pl\<in>set (paged_lines (case result_pages r of None \<Rightarrow> [] | Some ps \<Rightarrow> ps)).
             typed_polygon (line_polygon (snd pl))) \<longrightarrow>
          (\<forall>ke\<in>set m. list_all typeof_number (entry_polygon (snd ke)))) \<and>
         distinct (map fst m) \<and>
         (\<forall>k. map_of m k =
               first_seen k (paged_lines (case result_pages r of None \<Rightarrow> [] | Some ps \<Rightarrow> ps)))"
proof -
  note q = build_indexed [OF assms]
  have "\<forall>ke\<in>set m. list_all typeof_number (entry_polygon (snd ke))"
    if typed: "\<forall>pl\<in>set (paged_lines (case result_pages r of None \<Rightarrow> [] | Some ps \<Rightarrow> ps)).
             typed_polygon (line_polygon (snd pl))"
  proof
    fix ke assume ke: "ke \<in> set m"
    from q have "distinct (map fst m)" by (simp add: indexed_def)
    with ke have "map_of m (fst ke) = Some (snd ke)"
      by (metis map_of_eq_Some_iff prod.collapse)
    with q have "first_seen (fst ke)
        (paged_lines (case result_pages r of None \<Rightarrow> [] | Some ps \<Rightarrow> ps)) = Some (snd ke)"
      by (simp add: indexed_def)
    from first_seen_from_line [OF this] obtain pl where
      "pl \<in> set (paged_lines (case result_pages r of None \<Rightarrow> [] | Some ps \<Rightarrow> ps))"
      "entry_of (fst pl) (snd pl) = Some (snd ke)" by blast
    with typed entry_of_numbers show "list_all typeof_number (entry_polygon (snd ke))" by blast
  qed
  with q show ?thesis by (simp add: indexed_def)
qed

lemma confidential_run:
  "build_linePolygonMap \<lparr>result_pages = Some confidential_pages, result_paragraphs = None\<rparr> =
     Inr confidential_map"
  by code_simp

theorem C4_index_entries_witness:
  "build_linePolygonMap \<lparr>result_pages = Some confidential_pages, result_paragraphs = None\<rparr> =
     Inr confidential_map \<and>
   8 \<le> length (entry_polygon (snd (confidential_map ! 0))) \<and>
   list_all typeof_number (entry_polygon (snd (confidential_map ! 0))) \<and>
   distinct (map fst confidential_map) \<and>
   map_of confidential_map ''1:Confidential'' = first_seen ''1:Confidential'' (paged_lines confidential_pages) \<and>
   map_of confidential_map ''1:Confidential'' = Some \<lparr>entry_page = 1, entry_polygon = quad\<rparr> \<and>
   map_of confidential_map ''1:Draft'' = first_seen ''1:Draft'' (paged_lines confidential_pages) \<and>
   map_of confidential_map ''1:Draft'' = None"
proof -
  have pg: "(case result_pages \<lparr>result_pages = Some confidential_pages, result_paragraphs = None\<rparr>
             of None \<Rightarrow> [] | Some ps \<Rightarrow> ps) = confidential_pages" by simp
  note c = C4_index_entries [OF confidential_run, unfolded pg]
  have typed: "\<forall>pl\<in>set (paged_lines confidential_pages). typed_polygon (line_polygon (snd pl))"
    by (simp add: paged_lines_def lines_of_def typed_polygon_def)
  have mem: "confidential_map ! 0 \<in> set confidential_map" by simp
  from c mem have "8 \<le> length (entry_polygon (snd (confidential_map ! 0)))" by blast
  moreover from c typed mem have "list_all typeof_number (entry_polygon (snd (confidential_map ! 0)))"
    by blast
  moreover from c have "distinct (map fst confidential_map)" by blast
  moreover from c have "map_of confidential_map ''1:Confidential'' =
      first_seen ''1:Confidential'' (paged_lines confidential_pages)" by blast
  moreover from c have "map_of confidential_map ''1:Draft'' =
      first_seen ''1:Draft'' (paged_lines confidential_pages)" by blast
  moreover have "map_of confidential_map ''1:Confidential'' =
      Some \<lparr>entry_page = 1, entry_polygon = quad\<rparr>" by simp
  moreover have "map_of confidential_map ''1:Draft'' = None" by simp
  ultimately show ?thesis using confidential_run by blast
qed

subsection \<open>The prefix scan of findLinePolygon\<close>

text \<open>
  Claim C6.  The scan of lines 203 to 207 tests the content against
  \<^verbatim>\<open>key.split(':')[1]\<close>, which is the text of the line only up to its first
  colon.  A line \<^verbatim>\<open>Term: 5 years\<close> on page 1 is therefore returned for the
  content \<^verbatim>\<open>Terminology\<close>, of which the text of the line is no prefix.
\<close>

theorem C6_prefix_scan_cuts_at_colon:
  "build_linePolygonMap term_result = Inr term_map \<and>
   findLinePolygon term_map ''Terminology'' 1 = Some \<lparr>entry_page = 1, entry_polygon = quad\<rparr> \<and>
   \<not> prefix ''Term: 5 years'' (trim ''Terminology'') \<and>
   split_char (CHR '':'') ''1:Term: 5 years'' ! 1 = ''Term''"
  by code_simp

subsection \<open>Raising\<close>





































end
